theory Spec2Isabelle
  imports Main "HOL-Library.Sublist" "HOL-Library.AList"
begin

section \<open>Python values and errors\<close>

text \<open>
  The exporters are Python scripts. Exceptions are values of \<open>error\<close>; a function that
  can raise returns \<open>error + 'a\<close> with \<open>Inl\<close> for the exception.
\<close>

datatype error = RuntimeError | IndexError | ValueError | OSError

section \<open>HTTP responses of the upstream API\<close>

text \<open>
  A response carries its status code and, when \<open>resp.json()\<close> succeeds, the decoded
  body; \<open>json_body = None\<close> stands for a body that makes \<open>resp.json()\<close> raise
  \<open>ValueError\<close>. Of the body only the keys the exporters read are kept; \<open>None\<close> in a
  field means the key is absent, so that \<open>.get(key, default)\<close> yields the default.
\<close>

record pagination =
  pg_total :: "int option"

record meta =
  meta_pagination :: "pagination option"

record 'a api_body =
  body_resources :: "'a list option"
  body_meta :: "meta option"

record 'a response =
  status_code :: int
  json_body :: "'a api_body option"

text \<open>\<open>data.get("resources", [])\<close>\<close>

definition resources_of :: "'a api_body \<Rightarrow> 'a list" where
  "resources_of data = (case body_resources data of None \<Rightarrow> [] | Some rs \<Rightarrow> rs)"

text \<open>\<open>data.get("meta", {}).get("pagination", {}).get("total", 0)\<close>\<close>

definition total_of :: "'a api_body \<Rightarrow> int" where
  "total_of data =
     (case body_meta data of
        None \<Rightarrow> 0
      | Some m \<Rightarrow>
          (case meta_pagination m of
             None \<Rightarrow> 0
           | Some p \<Rightarrow> (case pg_total p of None \<Rightarrow> 0 | Some t \<Rightarrow> t)))"

section \<open>exporthostgroups.py: fetch_host_groups\<close>

text \<open>
  The \<open>while True\<close> loop of \<open>fetch_host_groups\<close>. The upstream is a function from the
  query parameters \<open>limit\<close> and \<open>offset\<close> to the response. The loop state is
  \<open>all_resources\<close> and \<open>offset\<close>; \<open>reqs\<close> records the offset of every request sent
  (the script prints one line per request, naming the offset). The loop need not
  terminate (an upstream may report a total it never reaches), so the result is an
  option: \<open>None\<close> is a run that never returns.
\<close>

partial_function (option) fetch_host_groups_loop ::
  "(nat \<Rightarrow> nat \<Rightarrow> 'a response) \<Rightarrow> nat \<Rightarrow> 'a list \<Rightarrow> nat \<Rightarrow> nat list
     \<Rightarrow> (error + 'a list \<times> nat list) option"
where
  "fetch_host_groups_loop get limit all_resources offset reqs =
     (let resp = get limit offset; reqs' = reqs @ [offset] in
      if status_code resp \<noteq> 200 then Some (Inl RuntimeError)
      else
        (case json_body resp of
           None \<Rightarrow> Some (Inl RuntimeError)
         | Some data \<Rightarrow>
             (let resources = resources_of data;
                  all_resources' = all_resources @ resources;
                  total = total_of data
              in if int offset + int (length resources) \<ge> total
                 then Some (Inr (all_resources', reqs'))
                 else fetch_host_groups_loop get limit all_resources' (offset + limit) reqs')))"

declare fetch_host_groups_loop.simps [code]

text \<open>\<open>fetch_host_groups\<close> itself: \<open>limit = 100\<close>, \<open>offset = 0\<close>, \<open>all_resources = []\<close>.\<close>

definition fetch_host_groups ::
  "(nat \<Rightarrow> nat \<Rightarrow> 'a response) \<Rightarrow> (error + 'a list \<times> nat list) option" where
  "fetch_host_groups get = fetch_host_groups_loop get 100 [] 0 []"

text \<open>
  An upstream that holds the items \<open>items\<close> in a fixed order, answers every request with
  the slice \<open>items[offset : offset + limit]\<close> and reports \<open>len(items)\<close> as the total.
\<close>

definition paged_upstream :: "'a list \<Rightarrow> nat \<Rightarrow> nat \<Rightarrow> 'a response" where
  "paged_upstream items limit offset =
     \<lparr> status_code = 200,
       json_body = Some \<lparr> body_resources = Some (take limit (drop offset items)),
                          body_meta = Some \<lparr> meta_pagination =
                            Some \<lparr> pg_total = Some (int (length items)) \<rparr> \<rparr> \<rparr> \<rparr>"

text \<open>
  An upstream of the same kind that never serves more than \<open>cap\<close> items in a page,
  whatever limit is asked for.
\<close>

definition capped_upstream :: "nat \<Rightarrow> 'a list \<Rightarrow> nat \<Rightarrow> nat \<Rightarrow> 'a response" where
  "capped_upstream cap items limit offset =
     \<lparr> status_code = 200,
       json_body = Some \<lparr> body_resources = Some (take (min cap limit) (drop offset items)),
                          body_meta = Some \<lparr> meta_pagination =
                            Some \<lparr> pg_total = Some (int (length items)) \<rparr> \<rparr> \<rparr> \<rparr>"

text \<open>The number of pages of \<open>P\<close> items that hold \<open>T\<close> items: \<open>ceil(T / P)\<close>.\<close>

definition ceil_div :: "nat \<Rightarrow> nat \<Rightarrow> nat" where
  "ceil_div T P = (T + P - 1) div P"

section \<open>exportexclusions.py: fetch_details\<close>









section \<open>Python strings\<close>

text \<open>
  The scalar values a decoded JSON document holds, as far as the transformers read them:
  \<open>None\<close>, booleans, integers and strings.
\<close>

datatype pyval = PNone | PBool bool | PInt int | PStr string

text \<open>\<open>str(n)\<close> for an integer.\<close>

definition digit_char :: "nat \<Rightarrow> char" where
  "digit_char d = ''0123456789'' ! (d mod 10)"

function str_of_nat :: "nat \<Rightarrow> string" where
  "str_of_nat n =
     (if n < 10 then [digit_char n] else str_of_nat (n div 10) @ [digit_char (n mod 10)])"
  by pat_completeness auto
termination
  by (relation "measure id") auto

definition str_of_int :: "int \<Rightarrow> string" where
  "str_of_int i = (if i < 0 then CHR ''-'' # str_of_nat (nat (- i)) else str_of_nat (nat i))"

text \<open>\<open>str(v)\<close>, which is also what an f-string puts for \<open>{v}\<close>.\<close>

fun py_str :: "pyval \<Rightarrow> string" where
  "py_str PNone = ''None''"
| "py_str (PBool True) = ''True''"
| "py_str (PBool False) = ''False''"
| "py_str (PInt i) = str_of_int i"
| "py_str (PStr s) = s"

text \<open>\<open>str(x)\<close> for a value that is a string or \<open>None\<close>.\<close>

fun str_opt :: "string option \<Rightarrow> string" where
  "str_opt None = ''None''"
| "str_opt (Some s) = s"

text \<open>\<open>sep.join(xs)\<close>\<close>

fun join :: "string \<Rightarrow> string list \<Rightarrow> string" where
  "join sep [] = []"
| "join sep [x] = x"
| "join sep (x # y # ys) = x @ sep @ join sep (y # ys)"

text \<open>
  \<open>s.split(c)\<close> for a separator of one character: the fields between the separators,
  at least one field.
\<close>

fun split :: "char \<Rightarrow> string \<Rightarrow> string list" where
  "split c [] = [[]]"
| "split c (x # xs) =
     (if x = c then [] # split c xs
      else (case split c xs of [] \<Rightarrow> [[x]] | w # ws \<Rightarrow> (x # w) # ws))"

text \<open>
  \<open>s.replace(old, new)\<close> for a non-empty \<open>old\<close>: every occurrence, found from the left
  and not overlapping, is replaced.
\<close>

fun replace :: "string \<Rightarrow> string \<Rightarrow> string \<Rightarrow> string" where
  "replace old new [] = []"
| "replace old new (c # cs) =
     (if prefix old (c # cs) then new @ replace old new (drop (length old - 1) cs)
      else c # replace old new cs)"

text \<open>\<open>s.lower()\<close> on ASCII letters.\<close>

definition lower_char :: "char \<Rightarrow> char" where
  "lower_char c =
     (case map_of (zip ''ABCDEFGHIJKLMNOPQRSTUVWXYZ'' ''abcdefghijklmnopqrstuvwxyz'') c of
        None \<Rightarrow> c | Some l \<Rightarrow> l)"

definition lower :: "string \<Rightarrow> string" where
  "lower s = map lower_char s"

text \<open>
  \<open>sub in s\<close> on strings is \<open>sublist sub s\<close>: \<open>sub\<close> occurs in \<open>s\<close> as a contiguous run.
  \<open>s.startswith(p)\<close> is \<open>prefix p s\<close>.
\<close>

text \<open>A table as a data frame holds it: the column headers and the rows of cells.\<close>

record ('h, 'c) frame =
  columns :: "'h list"
  rows :: "'c list list"

text \<open>The truth value of a scalar in a condition.\<close>

fun truthy :: "pyval \<Rightarrow> bool" where
  "truthy PNone = False"
| "truthy (PBool b) = b"
| "truthy (PInt i) = (i \<noteq> 0)"
| "truthy (PStr s) = (s \<noteq> [])"

section \<open>exportsup.py: transform_policies\<close>

text \<open>
  A sensor-update policy, with the keys the transform reads. The build is a string when
  present.
\<close>

record sup_settings =
  sup_build :: "string option"
  sup_settings_uninstall_protection :: "pyval option"

record sup_policy =
  sup_platform_name :: "string option"
  sup_name :: "string option"
  sup_settings :: "sup_settings option"
  sup_uninstall_protection :: "pyval option"

text \<open>
  The build normalisation, lines 72 to 79: an empty build is left alone; a build with an
  \<open>n\<close> in it (in any case) becomes \<open>N-2\<close>, \<open>N-1\<close> or \<open>N\<close>.
\<close>

definition normalize_build :: "string \<Rightarrow> string" where
  "normalize_build build =
     (if build \<noteq> [] then
        (if sublist ''n'' (lower build) then
           (if sublist ''n-2'' (lower build) then ''N-2''
            else if sublist ''n-1'' (lower build) then ''N-1''
            else ''N'')
         else build)
      else build)"

text \<open>The row appended for one policy: name, build, uninstall\_protection.\<close>

definition sup_row :: "sup_policy \<Rightarrow> pyval list" where
  "sup_row pol =
     (let pol_name = (case sup_name pol of None \<Rightarrow> ''Unnamed'' | Some n \<Rightarrow> n);
          build = (case sup_settings pol of
                     None \<Rightarrow> []
                   | Some st \<Rightarrow> (case sup_build st of None \<Rightarrow> [] | Some b \<Rightarrow> b));
          build = normalize_build build;
          top = (case sup_uninstall_protection pol of None \<Rightarrow> PStr [] | Some v \<Rightarrow> v);
          uninstall_protection =
            (case sup_settings pol of
               None \<Rightarrow> top
             | Some st \<Rightarrow>
                 (case sup_settings_uninstall_protection st of None \<Rightarrow> top | Some v \<Rightarrow> v));
          uninstall_protection =
            (case uninstall_protection of
               PBool b \<Rightarrow> PStr (if b then ''Enabled'' else ''Disabled'')
             | v \<Rightarrow> v)
      in [PStr pol_name, PStr build, uninstall_protection])"

text \<open>
  \<open>if k not in d: d[k] = []\<close> followed by \<open>d[k].append(v)\<close>, on a dictionary in
  insertion order.
\<close>

definition append_at :: "'k \<Rightarrow> 'v \<Rightarrow> ('k \<times> 'v list) list \<Rightarrow> ('k \<times> 'v list) list" where
  "append_at k v d =
     (let d' = (if k \<notin> fst ` set d then d @ [(k, [])] else d)
      in AList.update k ((case map_of d' k of None \<Rightarrow> [] | Some xs \<Rightarrow> xs) @ [v]) d')"

text \<open>
  The first loop: policies of the platforms Mobile and Meta are skipped, every other
  policy adds its row to the list of its platform, \<open>Unknown\<close> when it names none.
\<close>

fun sup_collect ::
  "sup_policy list \<Rightarrow> (string \<times> pyval list list) list \<Rightarrow> (string \<times> pyval list list) list"
where
  "sup_collect [] per_os = per_os"
| "sup_collect (pol # policies) per_os =
     (let so = (case sup_platform_name pol of None \<Rightarrow> ''Unknown'' | Some p \<Rightarrow> p) in
      if so \<in> set [''Mobile'', ''Meta''] then sup_collect policies per_os
      else sup_collect policies (append_at so (sup_row pol) per_os))"

definition sup_transform_policies ::
  "sup_policy list \<Rightarrow> (string \<times> (string, pyval) frame) list" where
  "sup_transform_policies policies =
     map (\<lambda>(so, policies_list).
            (so, \<lparr> columns = [''name'', ''build'', ''uninstall_protection''],
                   rows = policies_list \<rparr>))
         (sup_collect policies [])"

section \<open>exportioarules.py: transform_rules\<close>

text \<open>An IOA rule group, with the keys the transform reads.\<close>

record fv_entry =
  fv_entry_value :: "pyval option"

record field_value =
  fv_name :: "string option"
  fv_values :: "fv_entry list option"

record ioa_rule =
  rule_name :: "pyval option"
  rule_description :: "pyval option"
  rule_pattern_severity :: "pyval option"
  rule_action_label :: "pyval option"
  rule_ruletype_name :: "pyval option"
  rule_field_values :: "field_value list option"

record rule_group =
  group_rules :: "ioa_rule list option"

text \<open>\<open>d.get(key, "")\<close>\<close>

definition get_or_empty :: "pyval option \<Rightarrow> pyval" where
  "get_or_empty v = (case v of None \<Rightarrow> PStr [] | Some x \<Rightarrow> x)"

text \<open>
  \<open>next((fv.get("values", [{}])[0].get("value", "") for fv in field_values
         if fv.get("name") == target), "")\<close>:
  the generator is lazy, so the expression is evaluated for the first entry with the
  target name only. Indexing an empty \<open>values\<close> list raises \<open>IndexError\<close>.
\<close>

definition extract_field :: "field_value list \<Rightarrow> string \<Rightarrow> error + pyval" where
  "extract_field field_values target =
     (case filter (\<lambda>fv. fv_name fv = Some target) field_values of
        [] \<Rightarrow> Inr (PStr [])
      | fv # _ \<Rightarrow>
          (case (case fv_values fv of None \<Rightarrow> [\<lparr> fv_entry_value = None \<rparr>] | Some vs \<Rightarrow> vs) of
             [] \<Rightarrow> Inl IndexError
           | e # _ \<Rightarrow> Inr (get_or_empty (fv_entry_value e))))"

text \<open>The six extractions of one rule, in the order of the source; the first error ends them.\<close>

fun extract_fields :: "field_value list \<Rightarrow> string list \<Rightarrow> error + pyval list" where
  "extract_fields field_values [] = Inr []"
| "extract_fields field_values (target # targets) =
     (case extract_field field_values target of
        Inl e \<Rightarrow> Inl e
      | Inr v \<Rightarrow>
          (case extract_fields field_values targets of
             Inl e \<Rightarrow> Inl e
           | Inr vs \<Rightarrow> Inr (v # vs)))"

definition rule_row :: "ioa_rule \<Rightarrow> error + pyval list" where
  "rule_row rule =
     (let field_values = (case rule_field_values rule of None \<Rightarrow> [] | Some fvs \<Rightarrow> fvs) in
      case extract_fields field_values
             [''ImageFilename'', ''CommandLine'', ''ParentImageFilename'', ''ParentCommandLine'',
              ''GrandparentImageFilename'', ''GrandparentCommandLine''] of
        Inl e \<Rightarrow> Inl e
      | Inr vs \<Rightarrow>
          Inr ([get_or_empty (rule_name rule), get_or_empty (rule_description rule),
                get_or_empty (rule_pattern_severity rule), get_or_empty (rule_action_label rule),
                get_or_empty (rule_ruletype_name rule)] @ vs))"

fun rule_rows :: "ioa_rule list \<Rightarrow> error + pyval list list" where
  "rule_rows [] = Inr []"
| "rule_rows (rule # rules) =
     (case rule_row rule of
        Inl e \<Rightarrow> Inl e
      | Inr r \<Rightarrow> (case rule_rows rules of Inl e \<Rightarrow> Inl e | Inr rs \<Rightarrow> Inr (r # rs)))"

definition transform_rules :: "rule_group list \<Rightarrow> error + (string, pyval) frame" where
  "transform_rules rule_details =
     (case rule_rows (concat (map (\<lambda>rule_group. case group_rules rule_group of
                                      None \<Rightarrow> [] | Some rs \<Rightarrow> rs) rule_details)) of
        Inl e \<Rightarrow> Inl e
      | Inr data \<Rightarrow>
          Inr \<lparr> columns = [''name'', ''description'', ''pattern_severity'', ''action_label'',
                           ''ruletype_name'', ''ImageFilename'', ''CommandLine'',
                           ''ParentImageFilename'', ''ParentCommandLine'',
                           ''GrandparentImageFilename'', ''GrandparentCommandLine''],
                rows = data \<rparr>)"

section \<open>exportiocs.py: transform_iocs\<close>

text \<open>
  An indicator, with the keys the transform reads. The type is a string when present;
  \<open>platforms\<close> is a list of strings or some scalar.
\<close>

record ioc_metadata =
  md_original_filename :: "pyval option"

datatype platforms_field = PlatformList "string list" | PlatformScalar pyval

record ioc =
  ioc_type :: "string option"
  ioc_value :: "pyval option"
  ioc_metadata :: "ioc_metadata option"
  ioc_action :: "pyval option"
  ioc_platforms :: "platforms_field option"

text \<open>\<open>ioc.get("type", "Unknown")\<close>\<close>

definition ioc_type_of :: "ioc \<Rightarrow> string" where
  "ioc_type_of i = (case ioc_type i of None \<Rightarrow> ''Unknown'' | Some t \<Rightarrow> t)"

text \<open>The row appended for one indicator: value, original\_filename, action, platforms.\<close>

definition ioc_row :: "ioc \<Rightarrow> pyval list" where
  "ioc_row i =
     (let v = get_or_empty (ioc_value i);
          original_filename =
            (case ioc_metadata i of
               None \<Rightarrow> PStr []
             | Some md \<Rightarrow> get_or_empty (md_original_filename md));
          action = get_or_empty (ioc_action i);
          platforms =
            (case ioc_platforms i of
               None \<Rightarrow> PStr []
             | Some (PlatformList ps) \<Rightarrow> PStr (join '', '' ps)
             | Some (PlatformScalar x) \<Rightarrow> x)
      in [v, original_filename, action, platforms])"

fun iocs_collect ::
  "ioc list \<Rightarrow> (string \<times> pyval list list) list \<Rightarrow> (string \<times> pyval list list) list"
where
  "iocs_collect [] per_type = per_type"
| "iocs_collect (i # iocs) per_type =
     iocs_collect iocs (append_at (ioc_type_of i) (ioc_row i) per_type)"

definition transform_iocs :: "ioc list \<Rightarrow> (string \<times> (string, pyval) frame) list" where
  "transform_iocs iocs =
     map (\<lambda>(ioc_type, ioc_list).
            (ioc_type, \<lparr> columns = [''value'', ''original_filename'', ''action'', ''platforms''],
                          rows = ioc_list \<rparr>))
         (iocs_collect iocs [])"

section \<open>exportpp.py: transform_policies\<close>

text \<open>
  A prevention policy, with the keys the transform reads. Platform, policy name, policy
  id and setting name are strings when present. The value of a setting is a scalar
  or a dictionary of scalars, in the order of its keys.
\<close>

datatype raw_value = Plain pyval | Struct "(string \<times> pyval) list"

record pp_setting =
  st_name :: "string option"
  st_value :: "raw_value option"

record pp_settings_group =
  grp_settings :: "pp_setting list option"

record pp_policy =
  pp_platform_name :: "string option"
  pp_name :: "string option"
  pp_id :: "string option"
  pp_prevention_settings :: "pp_settings_group list option"

text \<open>
  A dictionary key or a cell that is a string or \<open>None\<close>. In a cell of a frame \<open>None\<close>
  is the missing value.
\<close>

type_synonym label = "string option"

text \<open>
  \<open>per_os[so]\<close>: the rows of a platform, each row a dictionary from policy name to the
  text of the value.
\<close>

type_synonym motors = "(label \<times> (label \<times> string) list) list"

definition recommended :: "(string \<times> (string \<times> string) list) list" where
  \<open>recommended =
      [(''Windows'',
         [(''Notify End Users'', ''ON''),
          (''Unknown Detection-Related Executables'', ''ON''),
          (''Unknown Executables'', ''ON''),
          (''Sensor Tampering Protection'', ''ON''),
          (''Additional User Mode Data'', ''ON''),
          (''Interpreter-Only'', ''ON''),
          (''Engine (Full Visibility)'', ''ON''),
          (''Script-Based Execution Monitoring'', ''ON''),
          (''HTTP Detections'', ''ON''),
          (''Redact HTTP Detection Details'', ''ON''),
          (''Hardware-Enhanced Exploit Detection'', ''ON''),
          (''Enhanced Exploitation Visibility'', ''ON''),
          (''Extended User Mode Data (Detection)'', ''MODERATE''),
          (''Enhanced DLL Load Visibility'', ''OFF''),
          (''WSL2 Visibility'', ''OFF''),
          (''Memory Scanning'', ''ON''),
          (''Scan with CPU'', ''ON''),
          (''BIOS Deep Visibility'', ''ON''),
          (''Cloud Anti-malware (Detection)'', ''AGGRESSIVE''),
          (''Cloud Anti-malware (Prevention)'', ''AGGRESSIVE''),
          (''Adware & PUP (Detection)'', ''AGGRESSIVE''),
          (''Adware & PUP (Prevention)'', ''AGGRESSIVE''),
          (''Sensor Anti-malware (Detection)'', ''AGGRESSIVE''),
          (''Sensor Anti-malware (Prevention)'', ''AGGRESSIVE''),
          (''Enhanced ML for larger files'', ''ON''),
          (''Sensor Anti-malware for End-User Initiated Scans (Detection)'', ''AGGRESSIVE''),
          (''Sensor Anti-malware for End-User Initiated Scans (Prevention)'', ''AGGRESSIVE''),
          (''Cloud Anti-malware for End-User Initiated Scans (Detection)'', ''AGGRESSIVE''),
          (''Cloud Anti-malware for End-User Initiated Scans (Prevention)'', ''AGGRESSIVE''),
          (''Cloud PUP/Adware for End-User Initiated Scans (Detection)'', ''DISABLED''),
          (''Cloud PUP/Adware for End-User Initiated Scans (Prevention)'', ''DISABLED''),
          (''USB Insertion Triggered Scan'', ''ON''),
          (''Detect on Write'', ''ON''),
          (''Quarantine on Write'', ''ON''),
          (''On Write Script File Visibility'', ''ON''),
          (''Quarantine & Security Center Registration'', ''ON''),
          (''Quarantine on Removable Media'', ''ON''),
          (''Cloud Anti-malware For Microsoft Office Files (Detection)'', ''AGGRESSIVE''),
          (''Cloud Anti-malware For Microsoft Office Files (Prevention)'', ''AGGRESSIVE''),
          (''Microsoft Office File Malicious Macro Removal'', ''ON''),
          (''Custom Blocking'', ''ON''),
          (''Suspicious Processes'', ''ON''),
          (''Suspicious Registry Operations'', ''ON''),
          (''Boot Configuration Database Protection'', ''OFF''),
          (''File System Containment'', ''OFF''),
          (''Suspicious Scripts and Commands'', ''ON''),
          (''Intelligence-Sourced Threats'', ''ON''),
          (''Driver Load Prevention'', ''ON''),
          (''Vulnerable Driver Protection'', ''ON''),
          (''Force ASLR'', ''ON''),
          (''Force DEP'', ''OFF''),
          (''Heap Spray Preallocation'', ''ON''),
          (''NULL Page Allocation'', ''ON''),
          (''SEH Overwrite Protection'', ''ON''),
          (''Backup Deletion'', ''ON''),
          (''Cryptowall'', ''ON''),
          (''File Encryption'', ''ON''),
          (''Locky'', ''ON''),
          (''File System Access'', ''ON''),
          (''Volume Shadow Copy - Audit'', ''ON''),
          (''Volume Shadow Copy - Protect'', ''ON''),
          (''Application Exploitation Activity'', ''ON''),
          (''Chopper Webshell'', ''ON''),
          (''Drive-by Download'', ''ON''),
          (''Code Injection'', ''ON''),
          (''JavaScript Execution Via Rundll32'', ''ON''),
          (''Windows Logon Bypass ("Sticky Keys")'', ''ON''),
          (''Credential Dumping'', ''ON''),
          (''Advanced Remediation'', ''ON'')]),
       (''Linux'',
         [(''Unknown Detection-Related Executables'', ''ON''),
          (''Unknown Executables'', ''ON''),
          (''Sensor Tampering Protection'', ''ON''),
          (''Script-Based Execution Monitoring'', ''ON''),
          (''Filesystem Visibility'', ''ON''),
          (''Network Visibility'', ''ON''),
          (''Http Visibility'', ''ON''),
          (''FTP Visibility'', ''ON''),
          (''TLS Visibility'', ''ON''),
          (''Extended Command Line Visibility'', ''ON''),
          (''Email Protocol Visibility'', ''ON''),
          (''Memory Visibility'', ''ON''),
          (''D-Bus Visibility'', ''ON''),
          (''Enhance PHP Visibility'', ''ON''),
          (''Cloud Anti-malware (Detection)'', ''AGGRESSIVE''),
          (''Cloud Anti-malware (Prevention)'', ''AGGRESSIVE''),
          (''Sensor Anti-malware (Detection)'', ''AGGRESSIVE''),
          (''Sensor Anti-malware (Prevention)'', ''AGGRESSIVE''),
          (''Quarantine'', ''ON''),
          (''On Write Script File Visibility'', ''ON''),
          (''Custom Blocking'', ''ON''),
          (''Suspicious Processes'', ''ON''),
          (''Drift Prevention'', ''ON'')]),
       (''Mac'',
         [(''Notify End Users'', ''ON''),
          (''Unknown Detection-Related Executables'', ''ON''),
          (''Sensor Tampering Protection'', ''ON''),
          (''Unknown Executables'', ''ON''),
          (''Script-Based Execution Monitoring'', ''ON''),
          (''Cloud Anti-malware (Detection)'', ''AGGRESSIVE''),
          (''Cloud Anti-malware (Prevention)'', ''AGGRESSIVE''),
          (''Adware & PUP (Detection)'', ''AGGRESSIVE''),
          (''Adware & PUP (Prevention)'', ''AGGRESSIVE''),
          (''Sensor Anti-malware (Detection)'', ''AGGRESSIVE''),
          (''Sensor Anti-malware (Prevention)'', ''AGGRESSIVE''),
          (''Quarantine'', ''ON''),
          (''Detect on Write'', ''ON''),
          (''Quarantine on Write'', ''ON''),
          (''Custom Blocking'', ''ON''),
          (''Suspicious Processes'', ''ON''),
          (''Intelligence-Sourced Threats'', ''ON''),
          (''XPCOM Shell'', ''ON''),
          (''Chopper Webshell'', ''ON''),
          (''Empyre Backdoor'', ''ON''),
          (''KcPassword Decoded'', ''ON''),
          (''Hash Collector'', ''ON'')])]\<close>

text \<open>\<open>recommended.get(so, {}).get(motor, "")\<close>\<close>

definition recommended_value :: "string \<Rightarrow> label \<Rightarrow> string" where
  "recommended_value so motor =
     (case map_of recommended so of
        None \<Rightarrow> []
      | Some table \<Rightarrow>
          (case motor of
             None \<Rightarrow> []
           | Some m \<Rightarrow> (case map_of table m of None \<Rightarrow> [] | Some v \<Rightarrow> v)))"

text \<open>
  The text of a setting value: \<open>"/".join(f"{k}:{v}" for k, v in value.items())\<close> for a
  dictionary, \<open>str(value)\<close> otherwise; an absent value is \<open>None\<close>.
\<close>

definition stringify :: "raw_value option \<Rightarrow> string" where
  "stringify v =
     (case v of
        None \<Rightarrow> ''None''
      | Some (Plain x) \<Rightarrow> py_str x
      | Some (Struct kvs) \<Rightarrow> join ''/'' (map (\<lambda>(k, x). k @ '':'' @ py_str x) kvs))"

text \<open>\<open>if old in s: s = s.replace(old, new)\<close>\<close>

definition replace_in :: "string \<Rightarrow> string \<Rightarrow> string \<Rightarrow> string" where
  "replace_in old new s = (if sublist old s then replace old new s else s)"

text \<open>The six replacements of lines 229 to 243, in their order.\<close>

definition collapse_flags :: "string \<Rightarrow> string" where
  "collapse_flags value_str =
     fold (\<lambda>(old, new) value_str. replace_in old new value_str)
       [(''enabled:True'', ''True''),
        (''enabled:False'', ''False''),
        (''configured:True/True'', ''True''),
        (''configured:False/False'', ''False''),
        (''configured:True'', ''True''),
        (''configured:False'', ''False'')]
       value_str"

text \<open>
  \<open>next((part.split(":")[1] for part in parts if part.startswith(tag)), "")\<close>: the
  second field of the first part that starts with the tag, the empty string when no
  part does.
\<close>

definition first_field :: "string \<Rightarrow> string list \<Rightarrow> error + string" where
  "first_field tag parts =
     (case filter (prefix tag) parts of
        [] \<Rightarrow> Inr []
      | part # _ \<Rightarrow>
          (case split CHR '':'' part of
             _ # v # _ \<Rightarrow> Inr v
           | _ \<Rightarrow> Inl IndexError))"

text \<open>
  \<open>if motor not in motors: motors[motor] = {}\<close> followed by
  \<open>motors[motor][pol_name] = v\<close>.
\<close>

definition set_cell :: "motors \<Rightarrow> label \<Rightarrow> label \<Rightarrow> string \<Rightarrow> motors" where
  "set_cell motors motor pol_name v =
     (let motors' = (if motor \<notin> fst ` set motors then motors @ [(motor, [])] else motors)
      in AList.update motor
           (AList.update pol_name v (case map_of motors' motor of None \<Rightarrow> [] | Some r \<Rightarrow> r))
           motors')"

text \<open>The body of the loop over the settings, lines 222 to 266.\<close>

definition add_setting :: "label \<Rightarrow> pp_setting \<Rightarrow> motors \<Rightarrow> error + motors" where
  "add_setting pol_name s motors =
     (let motor_name = st_name s;
          value_str = collapse_flags (stringify (st_value s))
      in
      if sublist ''detection:'' value_str \<and> sublist ''prevention:'' value_str then
        (let parts = split CHR ''/'' value_str in
         case first_field ''detection:'' parts of
           Inl e \<Rightarrow> Inl e
         | Inr detection_value \<Rightarrow>
             (case first_field ''prevention:'' parts of
                Inl e \<Rightarrow> Inl e
              | Inr prevention_value \<Rightarrow>
                  (let motors1 =
                         (if detection_value \<noteq> []
                          then set_cell motors (Some (str_opt motor_name @ '' (Detection)''))
                                 pol_name detection_value
                          else motors)
                   in
                   if prevention_value \<noteq> [] then
                     (let prevention_motor = str_opt motor_name @ '' (Prevention)'' in
                      if prevention_motor = ''Extended User Mode Data (Prevention)''
                      then Inr motors1
                      else Inr (set_cell motors1 (Some prevention_motor) pol_name
                                  prevention_value))
                   else Inr motors1)))
      else Inr (set_cell motors motor_name pol_name value_str))"

fun add_settings :: "label \<Rightarrow> pp_setting list \<Rightarrow> motors \<Rightarrow> error + motors" where
  "add_settings pol_name [] motors = Inr motors"
| "add_settings pol_name (s # ss) motors =
     (case add_setting pol_name s motors of
        Inl e \<Rightarrow> Inl e
      | Inr motors' \<Rightarrow> add_settings pol_name ss motors')"

text \<open>\<open>pol.get("platform_name", "Unknown")\<close>\<close>

definition pp_so :: "pp_policy \<Rightarrow> string" where
  "pp_so pol = (case pp_platform_name pol of None \<Rightarrow> ''Unknown'' | Some p \<Rightarrow> p)"

text \<open>\<open>pol.get("name", pol.get("id"))\<close>\<close>

definition pp_pol_name :: "pp_policy \<Rightarrow> label" where
  "pp_pol_name pol = (case pp_name pol of None \<Rightarrow> pp_id pol | Some n \<Rightarrow> Some n)"

text \<open>
  The settings of a policy in the order the two nested loops visit them:
  \<open>for ps in prevention_settings: for s in ps.get("settings", [])\<close>.
\<close>

definition pp_settings_of :: "pp_policy \<Rightarrow> pp_setting list" where
  "pp_settings_of pol =
     concat (map (\<lambda>ps. case grp_settings ps of None \<Rightarrow> [] | Some ss \<Rightarrow> ss)
               (case pp_prevention_settings pol of None \<Rightarrow> [] | Some gs \<Rightarrow> gs))"

text \<open>
  The body of the loop over the policies, lines 211 to 272. \<open>host_counts\<close> maps policy
  names to host counts.
\<close>

definition add_policy ::
  "(string \<times> int) list \<Rightarrow> pp_policy \<Rightarrow> (string \<times> motors) list \<Rightarrow> error + (string \<times> motors) list"
where
  "add_policy host_counts pol per_os =
     (let so = pp_so pol in
      if so \<in> set [''Mobile'', ''Meta''] then Inr per_os
      else
        (let pol_name = pp_pol_name pol;
             per_os' = (if so \<notin> fst ` set per_os then per_os @ [(so, [])] else per_os);
             motors = (case map_of per_os' so of None \<Rightarrow> [] | Some m \<Rightarrow> m)
         in
         case add_settings pol_name (pp_settings_of pol) motors of
           Inl e \<Rightarrow> Inl e
         | Inr motors' \<Rightarrow>
             (let motors'' =
                    (case pol_name of
                       None \<Rightarrow> motors'
                     | Some n \<Rightarrow>
                         (case map_of host_counts n of
                            None \<Rightarrow> motors'
                          | Some c \<Rightarrow> set_cell motors' (Some ''Host Count'') pol_name
                                        (str_of_int c)))
              in Inr (AList.update so motors'' per_os'))))"

fun add_policies ::
  "(string \<times> int) list \<Rightarrow> pp_policy list \<Rightarrow> (string \<times> motors) list
     \<Rightarrow> error + (string \<times> motors) list"
where
  "add_policies host_counts [] per_os = Inr per_os"
| "add_policies host_counts (pol # policies) per_os =
     (case add_policy host_counts pol per_os of
        Inl e \<Rightarrow> Inl e
      | Inr per_os' \<Rightarrow> add_policies host_counts policies per_os')"

text \<open>The elements of a list in the order of their first occurrence.\<close>

definition first_seen :: "'a list \<Rightarrow> 'a list" where
  "first_seen xs = rev (remdups (rev xs))"

text \<open>
  \<open>pd.DataFrame.from_dict(motors, orient="index")\<close>: the columns are the policy names in
  the order a scan of the rows first meets them; the index is the union of the row
  keys of the columns, column by column. A cell the row has no entry for is missing.
\<close>

definition frame_columns :: "motors \<Rightarrow> label list" where
  "frame_columns motors = first_seen (concat (map (\<lambda>(m, row). map fst row) motors))"

definition frame_index :: "motors \<Rightarrow> label list" where
  "frame_index motors =
     first_seen (concat (map (\<lambda>c. map fst (filter (\<lambda>(m, row). c \<in> fst ` set row) motors))
                           (frame_columns motors)))"

definition cell :: "motors \<Rightarrow> label \<Rightarrow> label \<Rightarrow> label" where
  "cell motors m c = (case map_of motors m of None \<Rightarrow> None | Some row \<Rightarrow> map_of row c)"

text \<open>\<open>df[col].replace({"True": "ON", "False": "OFF"})\<close>, on one cell.\<close>

definition on_off :: "label \<Rightarrow> label" where
  "on_off c = (if c = Some ''True'' then Some ''ON'' else if c = Some ''False'' then Some ''OFF'' else c)"

text \<open>
  The header of the first column, \<open>Motor/Configuracao\<close> with its cedilla and tilde, as
  UTF-8 bytes.
\<close>

definition motor_header :: string where
  "motor_header = ''Motor/Configura'' @ [CHR 0xC3, CHR 0xA7, CHR 0xC3, CHR 0xA3] @ ''o''"

text \<open>
  The body of the second loop, lines 277 to 285: the frame of a platform, with the row
  names as first column, the column \<open>Recomended\<close> inserted as second column, and the
  replacement of \<open>True\<close> and \<open>False\<close> in the columns from the third on. \<open>df.insert\<close>
  raises \<open>ValueError\<close> when a policy column is itself named \<open>Recomended\<close>. The policy
  names are taken to differ from the frame's own headers \<open>index\<close> and
  \<open>motor_header\<close>.
\<close>

definition pp_frame :: "string \<Rightarrow> motors \<Rightarrow> error + (label, label) frame" where
  "pp_frame so motors =
     (let cols = frame_columns motors in
      if Some ''Recomended'' \<in> set cols then Inl ValueError
      else
        Inr \<lparr> columns = Some motor_header # Some ''Recomended'' # cols,
              rows = map (\<lambda>motor. motor # Some (recommended_value so motor)
                                    # map (\<lambda>c. on_off (cell motors motor c)) cols)
                         (frame_index motors) \<rparr>)"

fun pp_frames :: "(string \<times> motors) list \<Rightarrow> error + (string \<times> (label, label) frame) list" where
  "pp_frames [] = Inr []"
| "pp_frames ((so, motors) # per_os) =
     (case pp_frame so motors of
        Inl e \<Rightarrow> Inl e
      | Inr df \<Rightarrow>
          (case pp_frames per_os of
             Inl e \<Rightarrow> Inl e
           | Inr result \<Rightarrow> Inr ((so, df) # result)))"

definition transform_policies ::
  "pp_policy list \<Rightarrow> (string \<times> int) list \<Rightarrow> error + (string \<times> (label, label) frame) list"
where
  "transform_policies policies host_counts =
     (case add_policies host_counts policies [] of
        Inl e \<Rightarrow> Inl e
      | Inr per_os \<Rightarrow> pp_frames per_os)"

section \<open>exportrp.py: transform_policies\<close>

text \<open>
  A response policy, with the keys the transform reads. The \<open>enabled\<close> entry of a
  setting value is a scalar or a dictionary with an \<open>enabled\<close> entry of its own.
\<close>

datatype rp_enabled = Flag pyval | Nested "pyval option"

record rp_value =
  rpv_enabled :: "rp_enabled option"

record rp_setting =
  rps_name :: "string option"
  rps_value :: "rp_value option"

record rp_group =
  rpg_settings :: "rp_setting list option"

record rp_policy =
  rp_platform_name :: "string option"
  rp_name :: "string option"
  rp_settings :: "rp_group list option"

text \<open>
  \<open>enabled = setting.get("value", {}).get("enabled", False)\<close>, unwrapped once when it is
  a dictionary, and read as a condition.
\<close>

definition rp_enabled_of :: "rp_setting \<Rightarrow> bool" where
  "rp_enabled_of setting =
     (case rps_value setting of
        None \<Rightarrow> False
      | Some v \<Rightarrow>
          (case rpv_enabled v of
             None \<Rightarrow> False
           | Some (Flag x) \<Rightarrow> truthy x
           | Some (Nested None) \<Rightarrow> False
           | Some (Nested (Some x)) \<Rightarrow> truthy x))"

text \<open>\<open>config_values\<close> of one policy: the last setting of a name wins.\<close>

definition rp_config_values :: "rp_policy \<Rightarrow> (string \<times> string) list" where
  "rp_config_values pol =
     fold (\<lambda>setting config_values.
             AList.update (case rps_name setting of None \<Rightarrow> [] | Some n \<Rightarrow> n)
               (if rp_enabled_of setting then ''Enabled'' else ''Disabled'') config_values)
          (concat (map (\<lambda>setting_group. case rpg_settings setting_group of
                                           None \<Rightarrow> [] | Some ss \<Rightarrow> ss)
                     (case rp_settings pol of None \<Rightarrow> [] | Some gs \<Rightarrow> gs)))
          []"

text \<open>The first loop, lines 64 to 82.\<close>

fun rp_collect ::
  "rp_policy list \<Rightarrow> (string \<times> (string \<times> (string \<times> string) list) list) list
     \<Rightarrow> (string \<times> (string \<times> (string \<times> string) list) list) list"
where
  "rp_collect [] per_so_policy_configs = per_so_policy_configs"
| "rp_collect (pol # policies) per_so_policy_configs =
     (let so = (case rp_platform_name pol of None \<Rightarrow> ''Unknown'' | Some p \<Rightarrow> p) in
      if so \<in> set [''Mobile'', ''Meta''] then rp_collect policies per_so_policy_configs
      else
        (let per' = (if so \<notin> fst ` set per_so_policy_configs
                     then per_so_policy_configs @ [(so, [])] else per_so_policy_configs);
             policy_name = (case rp_name pol of None \<Rightarrow> ''Unnamed'' | Some n \<Rightarrow> n);
             configs = (case map_of per' so of None \<Rightarrow> [] | Some c \<Rightarrow> c)
         in rp_collect policies
              (AList.update so (AList.update policy_name (rp_config_values pol) configs) per')))"

text \<open>
  The second loop, lines 86 to 92. \<open>motors\<close> is a Python \<open>set\<close> of strings: the order in
  which it is iterated is fixed within a run and is a function of the hashes of the
  strings, which CPython salts per process. \<open>set_order\<close> stands for that order: given
  the keys in the order they were added, it returns them in the order the set yields
  them. The frame is written with its index, so a row starts with its motor name.
\<close>

definition rp_frame ::
  "(string list \<Rightarrow> string list) \<Rightarrow> (string \<times> (string \<times> string) list) list
     \<Rightarrow> (string, string) frame"
where
  "rp_frame set_order policy_configs =
     (let motors = set_order (concat (map (\<lambda>(policy_name, config_dict). map fst config_dict)
                                         policy_configs))
      in \<lparr> columns = [] # map fst policy_configs,
           rows = map (\<lambda>motor. motor # map (\<lambda>(policy_name, config_dict).
                                               case map_of config_dict motor of
                                                 None \<Rightarrow> [] | Some v \<Rightarrow> v)
                                           policy_configs)
                      motors \<rparr>)"

definition rp_transform_policies ::
  "(string list \<Rightarrow> string list) \<Rightarrow> rp_policy list \<Rightarrow> (string \<times> (string, string) frame) list"
where
  "rp_transform_policies set_order policies =
     map (\<lambda>(so, policy_configs). (so, rp_frame set_order policy_configs))
         (rp_collect policies [])"

text \<open>
  An iteration order of a set: it yields each key that was added, once.
\<close>

definition is_set_order :: "(string list \<Rightarrow> string list) \<Rightarrow> string list \<Rightarrow> bool" where
  "is_set_order set_order ks \<longleftrightarrow> set (set_order ks) = set ks \<and> distinct (set_order ks)"

section \<open>exportpp.py: save_to_excel\<close>



datatype sheet = Data "(label, label) frame" | Meta "(string, pyval) frame"


text \<open>\<open>if not outfile.lower().endswith(".xlsx"): outfile += ".xlsx"\<close>\<close>

definition xlsx_name :: "string \<Rightarrow> string" where
  "xlsx_name outfile = (if \<not> suffix ''.xlsx'' (lower outfile) then outfile @ ''.xlsx'' else outfile)"




section \<open>Reading dictionaries and frames\<close>

text \<open>The keys of a dictionary.\<close>

definition keys_of :: "('k \<times> 'v) list \<Rightarrow> 'k set" where
  "keys_of d = fst ` set d"

text \<open>
  \<open>per_os[so][motor][pol_name]\<close> when all three keys are there, and the row names of
  \<open>per_os[so]\<close>.
\<close>

definition pcell :: "(string \<times> motors) list \<Rightarrow> string \<Rightarrow> label \<Rightarrow> label \<Rightarrow> label" where
  "pcell per_os so m c =
     (case map_of per_os so of None \<Rightarrow> None | Some motors \<Rightarrow> cell motors m c)"

definition plabels :: "(string \<times> motors) list \<Rightarrow> string \<Rightarrow> label set" where
  "plabels per_os so = (case map_of per_os so of None \<Rightarrow> {} | Some motors \<Rightarrow> keys_of motors)"

text \<open>The row names one setting can write, and those one policy can write.\<close>

definition setting_labels :: "pp_setting \<Rightarrow> label set" where
  "setting_labels s =
     {st_name s, Some (str_opt (st_name s) @ '' (Detection)'')} \<union>
     ({Some (str_opt (st_name s) @ '' (Prevention)'')}
        - {Some ''Extended User Mode Data (Prevention)''})"

definition policy_labels :: "pp_policy \<Rightarrow> label set" where
  "policy_labels pol =
     (\<Union>s \<in> set (pp_settings_of pol). setting_labels s) \<union> {Some ''Host Count''}"

text \<open>The name of a row of a prevention-policy sheet is its first cell.\<close>

definition row_name :: "label list \<Rightarrow> label" where
  "row_name r = (case r of [] \<Rightarrow> None | x # _ \<Rightarrow> x)"

definition row_names :: "(label, label) frame \<Rightarrow> label list" where
  "row_names df = map row_name (rows df)"

section \<open>Example inputs\<close>

text \<open>A prevention policy with one group of settings.\<close>

definition example_policy :: "string \<Rightarrow> string \<Rightarrow> pp_setting list \<Rightarrow> pp_policy" where
  "example_policy so n ss =
     \<lparr> pp_platform_name = Some so, pp_name = Some n, pp_id = Some ''id-1'',
       pp_prevention_settings = Some [\<lparr> grp_settings = Some ss \<rparr>] \<rparr>"

definition cloud_anti_malware :: pp_setting where
  "cloud_anti_malware =
     \<lparr> st_name = Some ''Cloud Anti-malware'',
       st_value = Some (Struct [(''detection'', PStr ''aggressive''),
                                (''prevention'', PStr ''aggressive'')]) \<rparr>"

definition extended_user_mode_data :: pp_setting where
  "extended_user_mode_data =
     \<lparr> st_name = Some ''Extended User Mode Data'',
       st_value = Some (Struct [(''detection'', PStr ''moderate''),
                                (''prevention'', PStr ''moderate'')]) \<rparr>"

definition notify_end_users :: pp_setting where
  "notify_end_users =
     \<lparr> st_name = Some ''Notify End Users'', st_value = Some (Struct [(''enabled'', PBool True)]) \<rparr>"

text \<open>A response policy with two settings.\<close>

definition example_response_policy :: rp_policy where
  "example_response_policy =
     \<lparr> rp_platform_name = Some ''Windows'', rp_name = Some ''Default'',
       rp_settings = Some [\<lparr> rpg_settings = Some
         [\<lparr> rps_name = Some ''RealTimeFunctionality'',
            rps_value = Some \<lparr> rpv_enabled = Some (Flag (PBool True)) \<rparr> \<rparr>,
          \<lparr> rps_name = Some ''CustomScripts'',
            rps_value = Some \<lparr> rpv_enabled = Some (Flag (PBool False)) \<rparr> \<rparr>] \<rparr>] \<rparr>"

section \<open>Paged fetch under the total-count policy\<close>

lemma ceil_div_one: "0 < d \<Longrightarrow> d \<le> P \<Longrightarrow> ceil_div d P = 1"
  unfolding ceil_div_def by (rule div_nat_eqI) auto

lemma ceil_div_zero: "0 < P \<Longrightarrow> ceil_div 0 P = 0"
  unfolding ceil_div_def by simp

lemma ceil_div_pos: "0 < P \<Longrightarrow> 0 < d \<Longrightarrow> 0 < ceil_div d P"
  unfolding ceil_div_def by (simp add: div_greater_zero_iff)

lemma ceil_div_step:
  assumes "0 < P" and "P < d"
  shows "ceil_div d P = Suc (ceil_div (d - P) P)"
proof -
  define m where "m = d - P + P - 1"
  have "d + P - 1 = m + P" using assms by (simp add: m_def)
  then have "(d + P - 1) div P = (m + P) div P" by simp
  also have "\<dots> = Suc (m div P)" using assms(1) by (simp add: div_add_self2)
  finally show ?thesis by (simp add: ceil_div_def m_def)
qed

text \<open>
  From any offset, the loop against a paged upstream returns: it appends the rest of the
  items and sends one request per remaining page, at least one.
\<close>

lemma fetch_host_groups_loop_paged:
  assumes P: "0 < P"
  shows "fetch_host_groups_loop (paged_upstream items) P acc off reqs =
     Some (Inr (acc @ drop off items,
                reqs @ map (\<lambda>j. off + j * P) [0..<max 1 (ceil_div (length items - off) P)]))"
proof (induction "length items - off" arbitrary: off acc reqs rule: less_induct)
  case less
  show ?case
  proof (cases "length items - off \<le> P")
    case True
    then have pg: "max (Suc 0) (ceil_div (length items - off) P) = Suc 0"
      using P by (cases "length items - off = 0") (simp_all add: ceil_div_one ceil_div_zero)
    have le: "int (length items) \<le> int off + int (length items - off)" by arith
    show ?thesis
      apply (subst fetch_host_groups_loop.simps)
      using True P le
      by (simp add: paged_upstream_def resources_of_def total_of_def pg min_def Let_def)
  next
    case False
    then have d: "P < length items - off" by simp
    have lt: "length items - (off + P) < length items - off" using d P by simp
    have pg: "max (Suc 0) (ceil_div (length items - off) P)
                = Suc (max (Suc 0) (ceil_div (length items - (off + P)) P))"
    proof -
      have "0 < length items - (off + P)" using d by arith
      then have "0 < ceil_div (length items - (off + P)) P" by (rule ceil_div_pos[OF P])
      then show ?thesis using ceil_div_step[OF P d] by (simp add: max_def)
    qed
    have dr: "take P (drop off items) @ drop (off + P) items = drop off items"
      by (metis add.commute append_take_drop_id drop_drop)
    show ?thesis
      apply (subst fetch_host_groups_loop.simps)
      using d P less[OF lt]
      by (simp add: paged_upstream_def resources_of_def total_of_def pg min_def Let_def dr
            map_upt_Suc del: upt_Suc)
  qed
qed

text \<open>
  Claim C1, as amended. For every page size \<open>P \<ge> 1\<close> and every upstream that holds
  \<open>T\<close> items in a fixed order, serves at each offset the full slice of the \<open>P\<close> items
  from there on (fewer only where the items end) and reports \<open>T\<close> as the total, the
  total-count fetch returns: its result is exactly the \<open>T\<close> items in upstream order,
  and it has sent \<open>max 1 (ceil (T / P))\<close> requests, at the offsets \<open>0, P, 2P, \<dots>\<close>.
  The loop tests its exit only after a request, so an empty upstream still costs one
  request. \<open>fetch_host_groups\<close> is the case \<open>P = 100\<close>.
\<close>

theorem fetch_host_groups_total_count:
  "0 < P \<Longrightarrow>
   fetch_host_groups_loop (paged_upstream items) P [] 0 [] =
     Some (Inr (items, map (\<lambda>j. j * P) [0..<max 1 (ceil_div (length items) P)]))
   \<and> fetch_host_groups (paged_upstream items) =
     Some (Inr (items, map (\<lambda>j. j * 100) [0..<max 1 (ceil_div (length items) 100)]))"
  using fetch_host_groups_loop_paged[of P items "[]" 0 "[]"]
        fetch_host_groups_loop_paged[of 100 items "[]" 0 "[]"]
  by (simp add: fetch_host_groups_def)

theorem fetch_host_groups_total_count_witness:
  "(0::nat) < 2 \<and>
   fetch_host_groups_loop (paged_upstream [10, 20, 30, 40, 50 :: nat]) 2 [] 0 [] =
     Some (Inr ([10, 20, 30, 40, 50], [0, 2, 4]))"
proof -
  have "max 1 (ceil_div (length [10, 20, 30, 40, 50 :: nat]) 2) = 3"
    by (simp add: ceil_div_def)
  then show ?thesis
    using fetch_host_groups_total_count[of 2 "[10, 20, 30, 40, 50 :: nat]"]
    by (simp add: upt_rec)
qed

text \<open>
  Claim C1 as stated fails in two ways. For \<open>T = 0\<close> it promises \<open>ceil (0 / 100) = 0\<close>
  requests, and the fetch sends one. And an upstream that serves pages of at most \<open>P\<close>
  items may serve fewer than were asked for: the offset still advances by the limit,
  so against an upstream of three items that serves one item per page the fetch
  returns one item after two requests.
\<close>

theorem fetch_host_groups_counterexample:
  "fetch_host_groups (paged_upstream ([] :: nat list)) = Some (Inr ([], [0]))
   \<and> length [0 :: nat] \<noteq> ceil_div (length ([] :: nat list)) 100
   \<and> fetch_host_groups (capped_upstream 1 [10, 20, 30 :: nat]) = Some (Inr ([10], [0, 100]))"
  unfolding fetch_host_groups_def
  by (simp add: fetch_host_groups_loop.simps paged_upstream_def capped_upstream_def
        resources_of_def total_of_def ceil_div_def)

text \<open>
  Claim C10. When the first response is a success whose body has no \<open>meta\<close>, no
  \<open>pagination\<close> in it, or no \<open>total\<close> in that, the total is read as 0 and
  \<open>fetch_host_groups\<close> returns the resources of that one response after one request,
  whatever the upstream would answer at later offsets.
\<close>

theorem fetch_host_groups_missing_total:
  assumes "status_code (get 100 0) = 200" and "json_body (get 100 0) = Some data"
    and "body_meta data = None \<or>
         (\<exists>m. body_meta data = Some m \<and> (meta_pagination m = None \<or>
            (\<exists>p. meta_pagination m = Some p \<and> pg_total p = None)))"
  shows "fetch_host_groups get = Some (Inr (resources_of data, [0]))"
proof -
  have "total_of data = 0" using assms(3) by (auto simp: total_of_def)
  then show ?thesis unfolding fetch_host_groups_def
    by (subst fetch_host_groups_loop.simps) (simp add: assms(1,2))
qed

theorem fetch_host_groups_missing_total_witness:
  "fetch_host_groups (\<lambda>limit offset. \<lparr> status_code = 200,
       json_body = Some \<lparr> body_resources = Some [offset + 1, offset + 2], body_meta = None \<rparr> \<rparr>)
    = Some (Inr ([1, 2], [0]))"
  using fetch_host_groups_missing_total[of "(\<lambda>limit offset. \<lparr> status_code = 200,
       json_body = Some \<lparr> body_resources = Some [offset + 1, offset + 2], body_meta = None \<rparr> \<rparr>)"
      "\<lparr> body_resources = Some [1, 2], body_meta = None \<rparr>"]
  by (simp add: resources_of_def)

section \<open>Detail hydration, one identifier per request\<close>







section \<open>Build normalisation of the sensor-update transform\<close>

lemma sublist_n_of_n2: "sublist ''n-2'' s \<Longrightarrow> sublist ''n'' s"
  by (rule sublist_order.order.trans[of "''n''" "''n-2''"]) (simp_all add: sublist_code)

lemma sublist_n_of_n1: "sublist ''n-1'' s \<Longrightarrow> sublist ''n'' s"
  by (rule sublist_order.order.trans[of "''n''" "''n-1''"]) (simp_all add: sublist_code)

text \<open>
  Claim C9. The build normalisation maps a build string that contains \<open>n-2\<close> (in any
  case, anywhere) to \<open>N-2\<close>, otherwise one that contains \<open>n-1\<close> to \<open>N-1\<close>, otherwise one
  that contains \<open>n\<close> to \<open>N\<close>, and returns a string without \<open>n\<close> unchanged. The source
  tests for \<open>n\<close> first and for the more specific tokens inside that branch; the chain
  below is the same function, for every string, the empty one included.
\<close>

theorem normalize_build_tokens:
  "normalize_build build =
     (if sublist ''n-2'' (lower build) then ''N-2''
      else if sublist ''n-1'' (lower build) then ''N-1''
      else if sublist ''n'' (lower build) then ''N''
      else build)"
proof -
  have "\<not> sublist ''n'' (lower [])" "\<not> sublist ''n-1'' (lower [])"
       "\<not> sublist ''n-2'' (lower [])"
    by (simp_all add: lower_def)
  then show ?thesis
    using sublist_n_of_n2[of "lower build"] sublist_n_of_n1[of "lower build"]
    by (auto simp: normalize_build_def)
qed

text \<open>The row of a policy carries the normalised build.\<close>

lemma sup_row_build:
  "sup_settings pol = Some st \<Longrightarrow> sup_build st = Some b \<Longrightarrow>
     sup_row pol ! 1 = PStr (normalize_build b)"
  by (simp add: sup_row_def Let_def)

lemma normalize_build_examples:
  "normalize_build ''Auto - N-2 (Staging)'' = ''N-2''"
  "normalize_build ''tagged|3;n-1'' = ''N-1''"
  "normalize_build ''Sensor N'' = ''N''"
  "normalize_build ''7.10.1234'' = ''7.10.1234''"
  by (simp_all add: normalize_build_def lower_def lower_char_def sublist_code)

section \<open>The IOA-rules transform on an empty values list\<close>

text \<open>
  When the key \<open>values\<close> is absent from a field entry, the default \<open>[{}]\<close> supplies an
  empty first entry and the extraction yields the empty string.
\<close>

lemma extract_field_values_absent:
  "extract_field [\<lparr> fv_name = Some target, fv_values = None \<rparr>] target = Inr (PStr [])"
  by (simp add: extract_field_def get_or_empty_def)

text \<open>
  Where no field entry has an empty \<open>values\<close> list, the extraction returns, and so does
  the transform: the empty list is the one case that raises.
\<close>

lemma extract_field_total:
  assumes "\<forall>fv \<in> set field_values. fv_values fv \<noteq> Some []"
  shows "\<exists>v. extract_field field_values target = Inr v"
proof (cases "filter (\<lambda>fv. fv_name fv = Some target) field_values")
  case Nil
  then show ?thesis by (simp add: extract_field_def)
next
  case (Cons fv rest)
  then have "fv \<in> set (filter (\<lambda>fv. fv_name fv = Some target) field_values)" by simp
  then have "fv \<in> set field_values" by simp
  with assms have "fv_values fv \<noteq> Some []" by blast
  then show ?thesis using Cons
    by (auto simp: extract_field_def split: option.splits list.splits)
qed

lemma extract_fields_total:
  assumes "\<forall>fv \<in> set field_values. fv_values fv \<noteq> Some []"
  shows "\<exists>vs. extract_fields field_values targets = Inr vs"
proof (induction targets)
  case Nil
  then show ?case by simp
next
  case (Cons t ts)
  from extract_field_total[OF assms, of t] obtain v where "extract_field field_values t = Inr v"
    by blast
  with Cons show ?case by auto
qed

lemma rule_rows_total:
  assumes "\<forall>rule \<in> set rules. \<forall>fvs. rule_field_values rule = Some fvs \<longrightarrow>
             (\<forall>fv \<in> set fvs. fv_values fv \<noteq> Some [])"
  shows "\<exists>data. rule_rows rules = Inr data"
  using assms
proof (induction rules)
  case Nil
  then show ?case by simp
next
  case (Cons rule rules)
  have "\<forall>fv \<in> set (case rule_field_values rule of None \<Rightarrow> [] | Some fvs \<Rightarrow> fvs).
          fv_values fv \<noteq> Some []"
    using Cons.prems by (cases "rule_field_values rule") auto
  from extract_fields_total[OF this] obtain vs where
    "extract_fields (case rule_field_values rule of None \<Rightarrow> [] | Some fvs \<Rightarrow> fvs)
       [''ImageFilename'', ''CommandLine'', ''ParentImageFilename'', ''ParentCommandLine'',
        ''GrandparentImageFilename'', ''GrandparentCommandLine''] = Inr vs"
    by blast
  then obtain r where r: "rule_row rule = Inr r" by (simp add: rule_row_def)
  from Cons obtain rs where "rule_rows rules = Inr rs" by auto
  with r show ?case by simp
qed

text \<open>
  Claim C5, at the input it names: a rule whose field entry \<open>ImageFilename\<close> has an
  empty \<open>values\<close> list. The default \<open>[{}]\<close> stands in for a missing key only; the
  empty list is indexed at 0 and \<open>transform_rules\<close> raises \<open>IndexError\<close>.
\<close>

theorem transform_rules_empty_values_raises:
  "transform_rules
     [\<lparr> group_rules = Some
         [\<lparr> rule_name = Some (PStr ''r''), rule_description = None,
            rule_pattern_severity = None, rule_action_label = None,
            rule_ruletype_name = None,
            rule_field_values = Some [\<lparr> fv_name = Some ''ImageFilename'', fv_values = Some [] \<rparr>] \<rparr>] \<rparr>]
   = Inl IndexError"
  by (simp add: transform_rules_def rule_row_def extract_field_def)

section \<open>Dictionaries in insertion order\<close>

lemma map_of_snoc_fresh:
  "k \<notin> fst ` set d \<Longrightarrow> map_of (d @ [(k, v)]) k' = (if k' = k then Some v else map_of d k')"
  by (induction d) auto

lemma map_add_fresh:
  "k \<notin> fst ` set d \<Longrightarrow> ([k \<mapsto> v] ++ map_of d) k' = (if k' = k then Some v else map_of d k')"
  using map_of_snoc_fresh[of k d v k'] by simp

lemma map_of_append_at:
  "map_of (append_at k v d) k' =
     (if k' = k then Some ((case map_of d k of None \<Rightarrow> [] | Some xs \<Rightarrow> xs) @ [v]) else map_of d k')"
proof (cases "k \<in> fst ` set d")
  case True
  then show ?thesis by (simp add: append_at_def update_conv')
next
  case False
  then have "map_of d k = None" by (simp add: map_of_eq_None_iff)
  then show ?thesis using False by (simp add: append_at_def update_conv' map_add_fresh)
qed

lemma dom_append_at: "fst ` set (append_at k v d) = insert k (fst ` set d)"
  by (auto simp: append_at_def Let_def dom_update)

lemma distinct_append_at: "distinct (map fst d) \<Longrightarrow> distinct (map fst (append_at k v d))"
  by (auto simp: append_at_def Let_def distinct_update)

lemma total_update:
  "map_of d k = Some xs \<Longrightarrow>
     sum_list (map (\<lambda>(k, xs). length xs) (AList.update k (xs @ [v]) d))
       = Suc (sum_list (map (\<lambda>(k, xs). length xs) d))"
  by (induction d) (auto split: if_splits)

lemma total_append_at:
  "sum_list (map (\<lambda>(k, xs). length xs) (append_at k v d)) = Suc (sum_list (map (\<lambda>(k, xs). length xs) d))"
proof (cases "k \<in> fst ` set d")
  case True
  then obtain xs where "map_of d k = Some xs"
    by (metis domD dom_map_of_conv_image_fst)
  then show ?thesis using True total_update[of d k xs v] by (simp add: append_at_def)
next
  case False
  then have m: "map_of (d @ [(k, [])]) k = Some []" by (simp add: map_add_fresh)
  from total_update[OF m, of v] False m show ?thesis by (simp add: append_at_def)
qed

lemma iocs_collect_keys:
  "fst ` set (iocs_collect iocs d) = fst ` set d \<union> ioc_type_of ` set iocs"
  by (induction iocs arbitrary: d) (simp_all add: dom_append_at)

lemma iocs_collect_distinct:
  "distinct (map fst d) \<Longrightarrow> distinct (map fst (iocs_collect iocs d))"
  by (induction iocs arbitrary: d) (simp_all add: distinct_append_at)

lemma iocs_collect_map_of:
  "map_of (iocs_collect iocs d) t =
     (if t \<in> fst ` set d \<or> t \<in> ioc_type_of ` set iocs
      then Some ((case map_of d t of None \<Rightarrow> [] | Some xs \<Rightarrow> xs)
                  @ map ioc_row (filter (\<lambda>i. ioc_type_of i = t) iocs))
      else None)"
proof (induction iocs arbitrary: d)
  case Nil
  then show ?case by (auto simp: map_of_eq_None_iff split: option.splits)
next
  case (Cons i iocs)
  have n: "t \<notin> fst ` set d \<Longrightarrow> map_of d t = None" by (simp add: map_of_eq_None_iff)
  have s: "t \<in> fst ` set d \<Longrightarrow> \<exists>xs. map_of d t = Some xs"
    by (metis domD dom_map_of_conv_image_fst)
  show ?case using n s
    by (auto simp: Cons.IH map_of_append_at dom_append_at split: option.splits)
qed

lemma iocs_collect_total:
  "sum_list (map (\<lambda>(k, xs). length xs) (iocs_collect iocs d))
     = sum_list (map (\<lambda>(k, xs). length xs) d) + length iocs"
  by (induction iocs arbitrary: d) (simp_all add: total_append_at)

section \<open>The rows of the prevention-policy transform\<close>

text \<open>
  Writing a cell changes that cell only, and adds at most the row it names. A cell once
  written is overwritten by later settings, never removed.
\<close>

lemma map_of_set_cell:
  "map_of (set_cell motors m c v) m' =
     (if m' = m then Some (AList.update c v (case map_of motors m of None \<Rightarrow> [] | Some r \<Rightarrow> r))
      else map_of motors m')"
proof (cases "m \<in> fst ` set motors")
  case True
  then show ?thesis by (simp add: set_cell_def update_conv')
next
  case False
  then have "map_of motors m = None" by (simp add: map_of_eq_None_iff)
  then show ?thesis using False by (simp add: set_cell_def update_conv' map_add_fresh)
qed

lemma cell_set_cell:
  "cell (set_cell motors m c v) m' c' = (if m' = m \<and> c' = c then Some v else cell motors m' c')"
  by (auto simp: cell_def map_of_set_cell update_conv' split: option.splits)

lemma keys_of_set_cell: "keys_of (set_cell motors m c v) = insert m (keys_of motors)"
  by (auto simp: keys_of_def set_cell_def Let_def dom_update)

lemma detection_not_excluded: "x @ '' (Detection)'' \<noteq> ''Extended User Mode Data (Prevention)''"
proof
  assume "x @ '' (Detection)'' = ''Extended User Mode Data (Prevention)''"
  then have "suffix '' (Detection)'' ''Extended User Mode Data (Prevention)''"
    by (metis suffixI)
  then show False by (simp add: suffix_to_prefix)
qed

lemma add_setting_mono:
  assumes "add_setting pn s motors = Inr motors'" and "cell motors m c \<noteq> None"
  shows "cell motors' m c \<noteq> None"
  using assms
  by (auto simp: add_setting_def Let_def cell_set_cell split: sum.splits if_splits)

lemma add_setting_keys:
  assumes "add_setting pn s motors = Inr motors'" and "m \<in> keys_of motors'"
  shows "m \<in> keys_of motors \<or> m = st_name s
       \<or> m = Some (str_opt (st_name s) @ '' (Detection)'')
       \<or> (m = Some (str_opt (st_name s) @ '' (Prevention)'')
            \<and> m \<noteq> Some ''Extended User Mode Data (Prevention)'')"
  using assms
  by (auto simp: add_setting_def Let_def keys_of_set_cell split: sum.splits if_splits)

lemma add_setting_writes:
  assumes "add_setting pn s motors = Inr motors'"
    and v: "v = collapse_flags (stringify (st_value s))"
    and "sublist ''detection:'' v" "sublist ''prevention:'' v"
    and "first_field ''detection:'' (split CHR ''/'' v) = Inr d"
    and "first_field ''prevention:'' (split CHR ''/'' v) = Inr p"
  shows "(d \<noteq> [] \<longrightarrow> cell motors' (Some (str_opt (st_name s) @ '' (Detection)'')) pn = Some d)
       \<and> (p \<noteq> [] \<and> str_opt (st_name s) @ '' (Prevention)'' \<noteq> ''Extended User Mode Data (Prevention)''
            \<longrightarrow> cell motors' (Some (str_opt (st_name s) @ '' (Prevention)'')) pn = Some p)"
  using assms
  by (auto simp: add_setting_def Let_def cell_set_cell split: sum.splits if_splits)


lemma add_setting_labels:
  "add_setting pn s motors = Inr motors' \<Longrightarrow> keys_of motors' \<subseteq> keys_of motors \<union> setting_labels s"
  using add_setting_keys[of pn s motors motors'] by (auto simp: setting_labels_def)

lemma add_settings_mono:
  "add_settings pn ss motors = Inr motors' \<Longrightarrow> cell motors m c \<noteq> None \<Longrightarrow> cell motors' m c \<noteq> None"
proof (induction ss arbitrary: motors)
  case Nil
  then show ?case by simp
next
  case (Cons s ss)
  from Cons.prems(1) obtain mid where a: "add_setting pn s motors = Inr mid"
    and b: "add_settings pn ss mid = Inr motors'"
    by (auto split: sum.splits)
  from add_setting_mono[OF a Cons.prems(2)] Cons.IH[OF b] show ?case by blast
qed

lemma add_settings_labels:
  "add_settings pn ss motors = Inr motors' \<Longrightarrow>
     keys_of motors' \<subseteq> keys_of motors \<union> (\<Union>s \<in> set ss. setting_labels s)"
proof (induction ss arbitrary: motors)
  case Nil
  then show ?case by simp
next
  case (Cons s ss)
  from Cons.prems(1) obtain mid where a: "add_setting pn s motors = Inr mid"
    and b: "add_settings pn ss mid = Inr motors'"
    by (auto split: sum.splits)
  from add_setting_labels[OF a] Cons.IH[OF b] show ?case by auto
qed

lemma add_settings_step:
  "add_settings pn ss motors = Inr motors' \<Longrightarrow> s \<in> set ss \<Longrightarrow>
     \<exists>before after. add_setting pn s before = Inr after
        \<and> (\<forall>m c. cell after m c \<noteq> None \<longrightarrow> cell motors' m c \<noteq> None)"
proof (induction ss arbitrary: motors)
  case Nil
  then show ?case by simp
next
  case (Cons x ss)
  from Cons.prems(1) obtain mid where a: "add_setting pn x motors = Inr mid"
    and b: "add_settings pn ss mid = Inr motors'"
    by (auto split: sum.splits)
  show ?case
  proof (cases "s = x")
    case True
    then show ?thesis using a add_settings_mono[OF b] by blast
  next
    case False
    then have "s \<in> set ss" using Cons.prems(2) by simp
    from Cons.IH[OF b this] show ?thesis .
  qed
qed

lemma keys_of_snoc: "keys_of (d @ [(k, v)]) = insert k (keys_of d)"
  by (auto simp: keys_of_def)

lemma keys_of_update: "keys_of (AList.update k v d) = insert k (keys_of d)"
  by (auto simp: keys_of_def dom_update)

lemma keys_of_Nil: "keys_of [] = {}"
  by (simp add: keys_of_def)

lemma map_of_None_keys: "map_of d k = None \<longleftrightarrow> k \<notin> keys_of d"
  by (simp add: keys_of_def map_of_eq_None_iff)

lemma add_policy_skip:
  "pp_so pol \<in> {''Mobile'', ''Meta''} \<Longrightarrow> add_policy hc pol per_os = Inr per_os"
  by (auto simp: add_policy_def)

lemma add_policy_shape:
  assumes "add_policy hc pol per_os = Inr per_os'" and "pp_so pol \<notin> {''Mobile'', ''Meta''}"
  shows "\<exists>motors1 motors2.
      add_settings (pp_pol_name pol) (pp_settings_of pol)
         (case map_of per_os (pp_so pol) of None \<Rightarrow> [] | Some m \<Rightarrow> m) = Inr motors1
    \<and> (motors2 = motors1 \<or> (\<exists>c. motors2 = set_cell motors1 (Some ''Host Count'') (pp_pol_name pol) c))
    \<and> map_of per_os' = (map_of per_os)(pp_so pol \<mapsto> motors2)
    \<and> keys_of per_os' = insert (pp_so pol) (keys_of per_os)
    \<and> (distinct (map fst per_os) \<longrightarrow> distinct (map fst per_os'))"
proof -
  let ?so = "pp_so pol"
  let ?per = "if ?so \<notin> fst ` set per_os then per_os @ [(?so, [])] else per_os"
  have m0: "(case map_of ?per ?so of None \<Rightarrow> [] | Some m \<Rightarrow> m) = (case map_of per_os ?so of None \<Rightarrow> [] | Some m \<Rightarrow> m)"
    by (auto simp: map_add_fresh map_of_eq_None_iff[symmetric] simp del: map_of_eq_None_iff)
  have k: "keys_of ?per = insert ?so (keys_of per_os)"
    by (auto simp: keys_of_def)
  have mp: "(map_of ?per)(?so \<mapsto> x) = (map_of per_os)(?so \<mapsto> x)" for x
    by (auto simp: fun_eq_iff map_add_fresh)
  have d: "distinct (map fst per_os) \<Longrightarrow> distinct (map fst ?per)"
    by auto
  from assms obtain motors1 where
    a: "add_settings (pp_pol_name pol) (pp_settings_of pol)
         (case map_of per_os ?so of None \<Rightarrow> [] | Some m \<Rightarrow> m) = Inr motors1"
    by (auto simp: add_policy_def Let_def m0 split: sum.splits simp del: map_of_append)
  from assms a obtain motors2 where
    b: "per_os' = AList.update ?so motors2 ?per"
    and c: "motors2 = motors1 \<or> (\<exists>c. motors2 = set_cell motors1 (Some ''Host Count'') (pp_pol_name pol) c)"
    by (auto simp: add_policy_def Let_def m0 split: sum.splits option.splits simp del: map_of_append)
  show ?thesis
    apply (rule exI[of _ motors1], rule exI[of _ motors2])
    using a c d k by (simp add: b update_conv' mp keys_of_update distinct_update del: map_of_append)
qed

lemma pcell_add_policy_mono:
  assumes "add_policy hc pol per_os = Inr per_os'" and "pcell per_os so m c \<noteq> None"
  shows "pcell per_os' so m c \<noteq> None"
proof (cases "pp_so pol \<in> {''Mobile'', ''Meta''}")
  case True
  then show ?thesis using assms add_policy_skip[OF True] by simp
next
  case False
  from add_policy_shape[OF assms(1) False] obtain motors1 motors2 where
    a: "add_settings (pp_pol_name pol) (pp_settings_of pol)
         (case map_of per_os (pp_so pol) of None \<Rightarrow> [] | Some m \<Rightarrow> m) = Inr motors1"
    and c: "motors2 = motors1 \<or> (\<exists>c. motors2 = set_cell motors1 (Some ''Host Count'') (pp_pol_name pol) c)"
    and mp: "map_of per_os' = (map_of per_os)(pp_so pol \<mapsto> motors2)"
    by blast
  show ?thesis
  proof (cases "so = pp_so pol")
    case True
    with assms(2) obtain motors0 where m0: "map_of per_os (pp_so pol) = Some motors0"
      and c0: "cell motors0 m c \<noteq> None"
      by (auto simp: pcell_def split: option.splits)
    from a m0 have "add_settings (pp_pol_name pol) (pp_settings_of pol) motors0 = Inr motors1" by simp
    from add_settings_mono[OF this c0] have "cell motors1 m c \<noteq> None" .
    with c have "cell motors2 m c \<noteq> None" by (auto simp: cell_set_cell)
    then show ?thesis using True mp by (simp add: pcell_def)
  next
    case False
    then show ?thesis using assms(2) mp by (simp add: pcell_def)
  qed
qed

lemma add_policies_mono:
  "add_policies hc ps per_os = Inr per_os' \<Longrightarrow> pcell per_os so m c \<noteq> None \<Longrightarrow>
     pcell per_os' so m c \<noteq> None"
proof (induction ps arbitrary: per_os)
  case Nil
  then show ?case by simp
next
  case (Cons p ps)
  from Cons.prems(1) obtain mid where a: "add_policy hc p per_os = Inr mid"
    and b: "add_policies hc ps mid = Inr per_os'"
    by (auto split: sum.splits)
  from pcell_add_policy_mono[OF a Cons.prems(2)] Cons.IH[OF b] show ?case by blast
qed

lemma add_policy_step:
  assumes "add_policy hc pol per_os = Inr per_os'" and "pp_so pol \<notin> {''Mobile'', ''Meta''}"
    and "s \<in> set (pp_settings_of pol)"
  shows "\<exists>before after. add_setting (pp_pol_name pol) s before = Inr after
        \<and> (\<forall>m c. cell after m c \<noteq> None \<longrightarrow> pcell per_os' (pp_so pol) m c \<noteq> None)"
proof -
  from add_policy_shape[OF assms(1,2)] obtain motors1 motors2 where
    a: "add_settings (pp_pol_name pol) (pp_settings_of pol)
         (case map_of per_os (pp_so pol) of None \<Rightarrow> [] | Some m \<Rightarrow> m) = Inr motors1"
    and c: "motors2 = motors1 \<or> (\<exists>c. motors2 = set_cell motors1 (Some ''Host Count'') (pp_pol_name pol) c)"
    and mp: "map_of per_os' = (map_of per_os)(pp_so pol \<mapsto> motors2)"
    by blast
  from add_settings_step[OF a assms(3)] obtain before after where
    st: "add_setting (pp_pol_name pol) s before = Inr after"
    and pe: "\<forall>m c. cell after m c \<noteq> None \<longrightarrow> cell motors1 m c \<noteq> None" by blast
  have "cell motors1 m c \<noteq> None \<Longrightarrow> cell motors2 m c \<noteq> None" for m c
    using c by (auto simp: cell_set_cell)
  with pe have "\<forall>m c. cell after m c \<noteq> None \<longrightarrow> pcell per_os' (pp_so pol) m c \<noteq> None"
    using mp by (simp add: pcell_def)
  with st show ?thesis by blast
qed

lemma add_policies_step:
  "add_policies hc ps per_os = Inr per_os' \<Longrightarrow> pol \<in> set ps \<Longrightarrow>
   pp_so pol \<notin> {''Mobile'', ''Meta''} \<Longrightarrow> s \<in> set (pp_settings_of pol) \<Longrightarrow>
     \<exists>before after. add_setting (pp_pol_name pol) s before = Inr after
        \<and> (\<forall>m c. cell after m c \<noteq> None \<longrightarrow> pcell per_os' (pp_so pol) m c \<noteq> None)"
proof (induction ps arbitrary: per_os)
  case Nil
  then show ?case by simp
next
  case (Cons p ps)
  from Cons.prems(1) obtain mid where a: "add_policy hc p per_os = Inr mid"
    and b: "add_policies hc ps mid = Inr per_os'"
    by (auto split: sum.splits)
  show ?case
  proof (cases "pol = p")
    case True
    from add_policy_step[OF a[folded True] Cons.prems(3,4)] obtain before after where
      st: "add_setting (pp_pol_name pol) s before = Inr after"
      and pe: "\<forall>m c. cell after m c \<noteq> None \<longrightarrow> pcell mid (pp_so pol) m c \<noteq> None" by blast
    from pe add_policies_mono[OF b] have
      "\<forall>m c. cell after m c \<noteq> None \<longrightarrow> pcell per_os' (pp_so pol) m c \<noteq> None" by blast
    with st show ?thesis by blast
  next
    case False
    then have "pol \<in> set ps" using Cons.prems(2) by simp
    from Cons.IH[OF b this Cons.prems(3,4)] show ?thesis .
  qed
qed

lemma add_policies_keys:
  "add_policies hc ps per_os = Inr per_os' \<Longrightarrow>
     keys_of per_os' = keys_of per_os \<union> pp_so ` {pol \<in> set ps. pp_so pol \<notin> {''Mobile'', ''Meta''}}"
proof (induction ps arbitrary: per_os)
  case Nil
  then show ?case by simp
next
  case (Cons p ps)
  from Cons.prems(1) obtain mid where a: "add_policy hc p per_os = Inr mid"
    and b: "add_policies hc ps mid = Inr per_os'"
    by (auto split: sum.splits)
  have "keys_of mid = keys_of per_os \<union> (if pp_so p \<in> {''Mobile'', ''Meta''} then {} else {pp_so p})"
  proof (cases "pp_so p \<in> {''Mobile'', ''Meta''}")
    case True
    then show ?thesis using a add_policy_skip[OF True] by simp
  next
    case False
    then show ?thesis using add_policy_shape[OF a False] by auto
  qed
  then show ?case using Cons.IH[OF b] by auto
qed

lemma add_policies_distinct:
  "add_policies hc ps per_os = Inr per_os' \<Longrightarrow> distinct (map fst per_os) \<Longrightarrow> distinct (map fst per_os')"
proof (induction ps arbitrary: per_os)
  case Nil
  then show ?case by simp
next
  case (Cons p ps)
  from Cons.prems(1) obtain mid where a: "add_policy hc p per_os = Inr mid"
    and b: "add_policies hc ps mid = Inr per_os'"
    by (auto split: sum.splits)
  have "distinct (map fst mid)"
  proof (cases "pp_so p \<in> {''Mobile'', ''Meta''}")
    case True
    then show ?thesis using a add_policy_skip[OF True] Cons.prems(2) by simp
  next
    case False
    then show ?thesis using add_policy_shape[OF a False] Cons.prems(2) by auto
  qed
  then show ?case using Cons.IH[OF b] by auto
qed

lemma add_policy_labels:
  assumes "add_policy hc pol per_os = Inr per_os'"
  shows "plabels per_os' so \<subseteq> plabels per_os so \<union> policy_labels pol"
proof (cases "pp_so pol \<in> {''Mobile'', ''Meta''}")
  case True
  then show ?thesis using assms add_policy_skip[OF True] by simp
next
  case False
  from add_policy_shape[OF assms(1) False] obtain motors1 motors2 where
    a: "add_settings (pp_pol_name pol) (pp_settings_of pol)
         (case map_of per_os (pp_so pol) of None \<Rightarrow> [] | Some m \<Rightarrow> m) = Inr motors1"
    and c: "motors2 = motors1 \<or> (\<exists>c. motors2 = set_cell motors1 (Some ''Host Count'') (pp_pol_name pol) c)"
    and mp: "map_of per_os' = (map_of per_os)(pp_so pol \<mapsto> motors2)"
    by blast
  have k0: "keys_of (case map_of per_os (pp_so pol) of None \<Rightarrow> [] | Some m \<Rightarrow> m) = plabels per_os (pp_so pol)"
    by (simp add: plabels_def keys_of_Nil split: option.splits)
  from add_settings_labels[OF a] k0 have
    k1: "keys_of motors1 \<subseteq> plabels per_os (pp_so pol) \<union> (\<Union>s \<in> set (pp_settings_of pol). setting_labels s)"
    by simp
  from c have "keys_of motors2 \<subseteq> keys_of motors1 \<union> {Some ''Host Count''}"
    by (auto simp: keys_of_set_cell)
  with k1 have "keys_of motors2 \<subseteq> plabels per_os (pp_so pol) \<union> policy_labels pol"
    by (auto simp: policy_labels_def)
  then show ?thesis using mp by (auto simp: plabels_def split: option.splits)
qed

lemma add_policies_labels:
  "add_policies hc ps per_os = Inr per_os' \<Longrightarrow>
     plabels per_os' so \<subseteq> plabels per_os so \<union> (\<Union>pol \<in> set ps. policy_labels pol)"
proof (induction ps arbitrary: per_os)
  case Nil
  then show ?case by simp
next
  case (Cons p ps)
  from Cons.prems(1) obtain mid where a: "add_policy hc p per_os = Inr mid"
    and b: "add_policies hc ps mid = Inr per_os'"
    by (auto split: sum.splits)
  from add_policy_labels[OF a, of so] Cons.IH[OF b] show ?case by auto
qed

section \<open>The frames of the prevention-policy transform\<close>

lemma set_first_seen: "set (first_seen xs) = set xs"
  by (simp add: first_seen_def)

lemma pp_frame_row_names: "pp_frame so motors = Inr df \<Longrightarrow> row_names df = frame_index motors"
  by (auto simp: pp_frame_def Let_def row_names_def row_name_def comp_def split: if_splits)

lemma frame_index_cell:
  assumes "cell motors m c \<noteq> None"
  shows "m \<in> set (frame_index motors)"
proof -
  from assms obtain row where r: "map_of motors m = Some row" and c: "map_of row c \<noteq> None"
    by (auto simp: cell_def split: option.splits)
  from r have mem: "(m, row) \<in> set motors" by (rule map_of_SomeD)
  from c have ck: "c \<in> fst ` set row" by (simp add: map_of_eq_None_iff)
  with mem have "c \<in> set (frame_columns motors)"
    by (force simp: frame_columns_def set_first_seen)
  with mem ck show ?thesis
    by (force simp: frame_index_def set_first_seen)
qed

lemma frame_index_keys: "set (frame_index motors) \<subseteq> keys_of motors"
  by (auto simp: frame_index_def set_first_seen keys_of_def)

lemma pp_frames_keys: "pp_frames per_os = Inr result \<Longrightarrow> map fst result = map fst per_os"
proof (induction per_os arbitrary: result)
  case Nil
  then show ?case by simp
next
  case (Cons a per_os)
  then show ?case by (cases a) (auto split: sum.splits)
qed

lemma pp_frames_map_of:
  "pp_frames per_os = Inr result \<Longrightarrow> map_of per_os so = Some motors \<Longrightarrow>
     \<exists>df. map_of result so = Some df \<and> pp_frame so motors = Inr df"
proof (induction per_os arbitrary: result)
  case Nil
  then show ?case by simp
next
  case (Cons a per_os)
  then show ?case by (cases a) (auto split: sum.splits if_splits)
qed

lemma pp_frames_mem:
  "pp_frames per_os = Inr result \<Longrightarrow> (so, df) \<in> set result \<Longrightarrow>
     \<exists>motors. (so, motors) \<in> set per_os \<and> pp_frame so motors = Inr df"
proof (induction per_os arbitrary: result)
  case Nil
  then show ?case by simp
next
  case (Cons a per_os)
  obtain so' motors' where a: "a = (so', motors')" by (cases a)
  from Cons.prems(1) a obtain df' rest where f: "pp_frame so' motors' = Inr df'"
    and r: "pp_frames per_os = Inr rest" and res: "result = (so', df') # rest"
    by (auto split: sum.splits)
  show ?case
  proof (cases "(so, df) = (so', df')")
    case True
    then show ?thesis using f a by auto
  next
    case False
    then have "(so, df) \<in> set rest" using Cons.prems(2) res by auto
    from Cons.IH[OF r this] show ?thesis by auto
  qed
qed

lemma excluded_in_setting_labels:
  "Some ''Extended User Mode Data (Prevention)'' \<in> setting_labels s \<Longrightarrow>
     st_name s = Some ''Extended User Mode Data (Prevention)''"
  using detection_not_excluded[of "str_opt (st_name s)"]
  by (auto simp: setting_labels_def)




lemma collapse_plain_bool:
  "collapse_flags (stringify (Some (Plain (PBool b)))) = py_str (PBool b)"
  by (cases b) (simp_all add: collapse_flags_def stringify_def replace_in_def sublist_code)





section \<open>Claims about the transforms\<close>

text \<open>
  Claim C7, as amended. \<open>transform_iocs\<close> makes one sheet per distinct type, in sheets of
  distinct names; an indicator without a type goes to the sheet \<open>Unknown\<close>, every
  other indicator to the sheet named by its own type, whatever that is; the rows of
  a sheet are the rows of the indicators of that type, in input order, so that every
  indicator is in exactly one sheet and the sheets together hold as many rows as
  there are indicators. The prevention-policy transform, where it returns, makes one
  sheet per distinct platform of the policies that are not of the platforms Mobile
  and Meta, \<open>Unknown\<close> for a policy without a platform; the policies of Mobile and
  Meta are left out.
\<close>

theorem sheets_by_discriminator:
  "distinct (map fst (transform_iocs iocs))
   \<and> fst ` set (transform_iocs iocs) = ioc_type_of ` set iocs
   \<and> (\<forall>(t, df) \<in> set (transform_iocs iocs).
         rows df = map ioc_row (filter (\<lambda>i. ioc_type_of i = t) iocs))
   \<and> sum_list (map (\<lambda>(t, df). length (rows df)) (transform_iocs iocs)) = length iocs
   \<and> (\<forall>i. ioc_type i = None \<longrightarrow> ioc_type_of i = ''Unknown'')
   \<and> (\<forall>pol. pp_platform_name pol = None \<longrightarrow> pp_so pol = ''Unknown'')
   \<and> (transform_policies policies host_counts = Inr result \<longrightarrow>
         distinct (map fst result)
         \<and> fst ` set result
             = pp_so ` {pol \<in> set policies. pp_so pol \<notin> {''Mobile'', ''Meta''}})"
proof -
  have d: "distinct (map fst (iocs_collect iocs []))" by (simp add: iocs_collect_distinct)
  have k: "map fst (transform_iocs iocs) = map fst (iocs_collect iocs [])"
    by (simp add: transform_iocs_def split_def comp_def)
  have r: "rows df = map ioc_row (filter (\<lambda>i. ioc_type_of i = t) iocs)"
    if "(t, df) \<in> set (transform_iocs iocs)" for t df
  proof -
    from that obtain rs where "(t, rs) \<in> set (iocs_collect iocs [])" "rows df = rs"
      by (auto simp: transform_iocs_def)
    with d have "map_of (iocs_collect iocs []) t = Some rs" by simp
    then show ?thesis using \<open>rows df = rs\<close> by (auto simp: iocs_collect_map_of split: if_splits)
  qed
  have t: "sum_list (map (\<lambda>(t, df). length (rows df)) (transform_iocs iocs)) = length iocs"
    using iocs_collect_total[of iocs "[]"] by (simp add: transform_iocs_def split_def comp_def)
  have s: "fst ` set (transform_iocs iocs) = ioc_type_of ` set iocs"
    using iocs_collect_keys[of iocs "[]"] k
    by (metis (no_types) image_empty list.set(1) set_map sup_bot_left)
  have u: "\<forall>i. ioc_type i = None \<longrightarrow> ioc_type_of i = ''Unknown''"
    by (simp add: ioc_type_of_def)
  have v: "\<forall>pol. pp_platform_name pol = None \<longrightarrow> pp_so pol = ''Unknown''"
    by (simp add: pp_so_def)
  have p: "distinct (map fst result)
         \<and> fst ` set result = pp_so ` {pol \<in> set policies. pp_so pol \<notin> {''Mobile'', ''Meta''}}"
    if tr: "transform_policies policies host_counts = Inr result"
  proof -
    from tr obtain per_os where ap: "add_policies host_counts policies [] = Inr per_os"
      and fr: "pp_frames per_os = Inr result"
      by (auto simp: transform_policies_def split: sum.splits)
    have dist: "distinct (map fst per_os)" using add_policies_distinct[OF ap] by simp
    have ks: "fst ` set per_os = pp_so ` {pol \<in> set policies. pp_so pol \<notin> {''Mobile'', ''Meta''}}"
      using add_policies_keys[OF ap] by (simp add: keys_of_def)
    have "fst ` set result = fst ` set per_os"
      using pp_frames_keys[OF fr] by (metis set_map)
    then show ?thesis using dist ks pp_frames_keys[OF fr] by simp
  qed
  show ?thesis using d k r t s u v p by auto
qed

theorem sheets_by_discriminator_witness:
  "map fst (transform_iocs
      [\<lparr> ioc_type = None, ioc_value = Some (PStr ''a''), ioc_metadata = None,
         ioc_action = None, ioc_platforms = None \<rparr>,
       \<lparr> ioc_type = Some ''sha256'', ioc_value = Some (PStr ''b''), ioc_metadata = None,
         ioc_action = None, ioc_platforms = None \<rparr>,
       \<lparr> ioc_type = None, ioc_value = Some (PStr ''c''), ioc_metadata = None,
         ioc_action = None, ioc_platforms = None \<rparr>]) = [''Unknown'', ''sha256'']
   \<and> (\<exists>result. transform_policies
                   [example_policy ''Windows'' ''P1'' [notify_end_users],
                    example_policy ''Mobile'' ''P2'' [notify_end_users]] [] = Inr result
         \<and> fst ` set result = {''Windows''})"
proof -
  let ?iocs = "[\<lparr> ioc_type = None, ioc_value = Some (PStr ''a''), ioc_metadata = None,
         ioc_action = None, ioc_platforms = None \<rparr>,
       \<lparr> ioc_type = Some ''sha256'', ioc_value = Some (PStr ''b''), ioc_metadata = None,
         ioc_action = None, ioc_platforms = None \<rparr>,
       \<lparr> ioc_type = None, ioc_value = Some (PStr ''c''), ioc_metadata = None,
         ioc_action = None, ioc_platforms = None \<rparr>]"
  let ?ps = "[example_policy ''Windows'' ''P1'' [notify_end_users],
              example_policy ''Mobile'' ''P2'' [notify_end_users]]"
  let ?R = "[(''Windows'',
              \<lparr> columns = [Some motor_header, Some ''Recomended'', Some ''P1''],
                rows = [[Some ''Notify End Users'', Some ''ON'', Some ''ON'']] \<rparr>)]"
  have ev: "transform_policies ?ps [] = Inr ?R" by code_simp
  have io: "map fst (transform_iocs ?iocs) = [''Unknown'', ''sha256'']" by code_simp
  have "{pol \<in> set ?ps. pp_so pol \<notin> {''Mobile'', ''Meta''}}
          = set (filter (\<lambda>pol. pp_so pol \<notin> {''Mobile'', ''Meta''}) ?ps)"
    by (simp only: set_filter)
  then have so: "pp_so ` {pol \<in> set ?ps. pp_so pol \<notin> {''Mobile'', ''Meta''}} = {''Windows''}"
    by (simp add: example_policy_def pp_so_def)
  from sheets_by_discriminator[of ?iocs ?ps "[]" ?R] ev so
  have "fst ` set ?R = {''Windows''}" by simp
  with ev io show ?thesis by blast
qed

text \<open>
  Claim C7 as stated fails on the prevention-policy transform: a policy of the platform
  Mobile is dropped, it contributes to no sheet. And a type the exporter has never
  seen names a sheet of its own, not the sheet \<open>Unknown\<close>.
\<close>

theorem sheets_by_discriminator_counterexample:
  "transform_policies [example_policy ''Mobile'' ''P2'' [notify_end_users]] [] = Inr []
   \<and> map fst (transform_iocs
        [\<lparr> ioc_type = Some ''some-new-type'', ioc_value = Some (PStr ''a''),
           ioc_metadata = None, ioc_action = None, ioc_platforms = None \<rparr>])
       = [''some-new-type'']"
  by code_simp

section \<open>The text of a compound value\<close>

text \<open>
  A dictionary with the keys \<open>detection\<close> and \<open>prevention\<close>, whose values hold neither
  a colon nor a slash, becomes a text that the replacements leave alone and from which
  the two values are read back as they are.
\<close>

lemma split_at_first:
  "c \<notin> set a \<Longrightarrow> xs @ c # ys = a @ c # rest \<Longrightarrow>
     xs = a \<or> (\<exists>t. xs = a @ c # t \<and> rest = t @ c # ys)"
proof (induction a arbitrary: xs)
  case Nil
  then show ?case by (cases xs) auto
next
  case (Cons x a)
  then show ?case by (cases xs) auto
qed

lemma tag_before_colon:
  assumes sub: "sublist (w @ [c]) (a @ c # b @ c # e)"
    and a: "c \<notin> set a" and b: "c \<notin> set b" and e: "c \<notin> set e"
  shows "suffix w a \<or> suffix w (a @ c # b)"
proof -
  from sub obtain ps ss where "a @ c # b @ c # e = ps @ (w @ [c]) @ ss"
    by (auto simp: sublist_def)
  then have eq: "(ps @ w) @ c # ss = a @ c # (b @ c # e)" by simp
  from split_at_first[OF a eq] show ?thesis
  proof
    assume "ps @ w = a"
    then have "suffix w a" by (metis suffixI)
    then show ?thesis ..
  next
    assume "\<exists>t. ps @ w = a @ c # t \<and> b @ c # e = t @ c # ss"
    then obtain t where t: "ps @ w = a @ c # t" and r: "t @ c # ss = b @ c # e" by auto
    from split_at_first[OF b r] have "t = b"
      using e by auto
    with t have "suffix w (a @ c # b)" by (metis suffixI)
    then show ?thesis ..
  qed
qed

lemma suffix_last: "suffix w y \<Longrightarrow> w \<noteq> [] \<Longrightarrow> last y = last w"
  by (auto simp: suffix_def)

lemma no_flag_in_compound:
  assumes "CHR '':'' \<notin> set d" "CHR '':'' \<notin> set p"
  shows "\<not> sublist ''enabled:'' (''detection:'' @ d @ ''/prevention:'' @ p)"
    and "\<not> sublist ''configured:'' (''detection:'' @ d @ ''/prevention:'' @ p)"
proof -
  have v: "''detection:'' @ d @ ''/prevention:'' @ p
            = ''detection'' @ CHR '':'' # (d @ ''/prevention'') @ CHR '':'' # p" by simp
  have c: "CHR '':'' \<notin> set ''detection''" "CHR '':'' \<notin> set (d @ ''/prevention'')"
    using assms by auto
  have n: "\<not> suffix w ''detection'' \<and> \<not> suffix w (''detection'' @ CHR '':'' # (d @ ''/prevention''))"
    if "w \<noteq> []" "last w = CHR ''d''" for w
  proof -
    have "last (''detection'' @ CHR '':'' # (d @ ''/prevention'')) = CHR ''n''" by simp
    moreover have "last ''detection'' = CHR ''n''" by simp
    ultimately show ?thesis using suffix_last[of w] that by fastforce
  qed
  show "\<not> sublist ''enabled:'' (''detection:'' @ d @ ''/prevention:'' @ p)"
  proof
    assume "sublist ''enabled:'' (''detection:'' @ d @ ''/prevention:'' @ p)"
    then have "sublist (''enabled'' @ [CHR '':''])
                 (''detection'' @ CHR '':'' # (d @ ''/prevention'') @ CHR '':'' # p)"
      unfolding v by simp
    from tag_before_colon[OF this c assms(2)] n[of "''enabled''"] show False by simp
  qed
  show "\<not> sublist ''configured:'' (''detection:'' @ d @ ''/prevention:'' @ p)"
  proof
    assume "sublist ''configured:'' (''detection:'' @ d @ ''/prevention:'' @ p)"
    then have "sublist (''configured'' @ [CHR '':''])
                 (''detection'' @ CHR '':'' # (d @ ''/prevention'') @ CHR '':'' # p)"
      unfolding v by simp
    from tag_before_colon[OF this c assms(2)] n[of "''configured''"] show False by simp
  qed
qed

lemma replace_in_absent: "\<not> sublist old s \<Longrightarrow> replace_in old new s = s"
  by (simp add: replace_in_def)

lemma not_sublist_of_part: "sublist a b \<Longrightarrow> \<not> sublist a s \<Longrightarrow> \<not> sublist b s"
  using sublist_order.order.trans by blast

lemma collapse_flags_compound:
  assumes "CHR '':'' \<notin> set d" "CHR '':'' \<notin> set p"
  shows "collapse_flags (''detection:'' @ d @ ''/prevention:'' @ p)
           = ''detection:'' @ d @ ''/prevention:'' @ p"
proof -
  let ?v = "''detection:'' @ d @ ''/prevention:'' @ p"
  note nf = no_flag_in_compound[OF assms]
  have e: "\<not> sublist ''enabled:True'' ?v" "\<not> sublist ''enabled:False'' ?v"
    by (rule not_sublist_of_part[OF _ nf(1)], simp add: sublist_code)+
  have c: "\<not> sublist ''configured:True/True'' ?v" "\<not> sublist ''configured:False/False'' ?v"
       "\<not> sublist ''configured:True'' ?v" "\<not> sublist ''configured:False'' ?v"
    by (rule not_sublist_of_part[OF _ nf(2)], simp add: sublist_code)+
  show ?thesis using e c by (simp add: collapse_flags_def replace_in_def del: append.simps)
qed

lemma split_no_sep: "c \<notin> set xs \<Longrightarrow> split c xs = [xs]"
  by (induction xs) auto

lemma split_at_sep: "c \<notin> set xs \<Longrightarrow> split c (xs @ c # ys) = xs # split c ys"
  by (induction xs) auto

lemma compound_text:
  assumes "CHR '':'' \<notin> set (py_str x)" "CHR ''/'' \<notin> set (py_str x)"
    and "CHR '':'' \<notin> set (py_str y)" "CHR ''/'' \<notin> set (py_str y)"
    and v: "v = collapse_flags (stringify (Some (Struct [(''detection'', x),
                                                          (''prevention'', y)])))"
  shows "v = ''detection:'' @ py_str x @ ''/prevention:'' @ py_str y"
    and "sublist ''detection:'' v" and "sublist ''prevention:'' v"
    and "first_field ''detection:'' (split CHR ''/'' v) = Inr (py_str x)"
    and "first_field ''prevention:'' (split CHR ''/'' v) = Inr (py_str y)"
proof -
  let ?d = "py_str x" and ?p = "py_str y"
  have s: "stringify (Some (Struct [(''detection'', x), (''prevention'', y)]))
             = ''detection:'' @ ?d @ ''/prevention:'' @ ?p"
    by (simp add: stringify_def)
  show veq: "v = ''detection:'' @ ?d @ ''/prevention:'' @ ?p"
    unfolding v s by (rule collapse_flags_compound[OF assms(1,3)])
  show "sublist ''detection:'' v" unfolding veq by (rule sublist_append_rightI)
  have "sublist ''prevention:'' ((''detection:'' @ ?d @ ''/'') @ ''prevention:'' @ ?p)"
    by (rule sublist_appendI)
  then show "sublist ''prevention:'' v" unfolding veq by simp
  have sp: "split CHR ''/'' v = [''detection:'' @ ?d, ''prevention:'' @ ?p]"
  proof -
    have 1: "CHR ''/'' \<notin> set (''detection:'' @ ?d)" using assms(2) by simp
    have 2: "CHR ''/'' \<notin> set (''prevention:'' @ ?p)" using assms(4) by simp
    have "v = (''detection:'' @ ?d) @ CHR ''/'' # (''prevention:'' @ ?p)" unfolding veq by simp
    then show ?thesis using split_at_sep[OF 1] split_no_sep[OF 2] by simp
  qed
  have d1: "split CHR '':'' (''detection:'' @ ?d) = [''detection'', ?d]"
  proof -
    have "CHR '':'' \<notin> set ''detection''" by simp
    from split_at_sep[OF this, of ?d] split_no_sep[OF assms(1)] show ?thesis by simp
  qed
  have p1: "split CHR '':'' (''prevention:'' @ ?p) = [''prevention'', ?p]"
  proof -
    have "CHR '':'' \<notin> set ''prevention''" by simp
    from split_at_sep[OF this, of ?p] split_no_sep[OF assms(3)] show ?thesis by simp
  qed
  have np: "\<not> prefix ''prevention:'' (''detection:'' @ ?d)" by simp
  have pd: "prefix ''detection:'' (''detection:'' @ ?d)" by simp
  have pp: "prefix ''prevention:'' (''prevention:'' @ ?p)" by simp
  show "first_field ''detection:'' (split CHR ''/'' v) = Inr ?d"
    unfolding sp first_field_def using pd d1 by (simp del: append.simps split.simps)
  show "first_field ''prevention:'' (split CHR ''/'' v) = Inr ?p"
    unfolding sp first_field_def using np pp p1 by (simp del: append.simps split.simps)
qed

text \<open>
  Claim C4, as amended. Let the prevention-policy transform return, and let a setting of
  a policy that is not of the platforms Mobile and Meta have a value whose text, after
  the replacements, contains both \<open>detection:\<close> and \<open>prevention:\<close>, with \<open>d\<close> and \<open>p\<close>
  the values the transform reads after the two tags. Then processing the setting
  writes \<open>d\<close>, if it is not empty, into the row named by the setting name with
  \<open>(Detection)\<close> appended, and \<open>p\<close>, if it is not empty and the setting is not
  \<open>Extended User Mode Data\<close>, into the row named with \<open>(Prevention)\<close> appended, both in
  the column of the policy; and both rows are rows of the sheet of the platform in
  the output. A row named \<open>Extended User Mode Data (Prevention)\<close> is in an output sheet
  only if a setting of the input itself has that literal name: splitting a setting
  never makes it. A value that is a dictionary of a detection and a prevention
  indicator without colon or slash in them is such a value, and \<open>d\<close> and \<open>p\<close> are then
  the two indicators.
\<close>

theorem detection_prevention_rows:
  assumes tr: "transform_policies policies host_counts = Inr result"
  shows "(pol \<in> set policies \<and> s \<in> set (pp_settings_of pol)
          \<and> pp_so pol \<notin> {''Mobile'', ''Meta''}
          \<and> sublist ''detection:'' (collapse_flags (stringify (st_value s)))
          \<and> sublist ''prevention:'' (collapse_flags (stringify (st_value s)))
          \<and> first_field ''detection:''
               (split CHR ''/'' (collapse_flags (stringify (st_value s)))) = Inr d
          \<and> first_field ''prevention:''
               (split CHR ''/'' (collapse_flags (stringify (st_value s)))) = Inr p
          \<longrightarrow>
            (\<forall>motors motors'. add_setting (pp_pol_name pol) s motors = Inr motors' \<longrightarrow>
               (d \<noteq> [] \<longrightarrow>
                  cell motors' (Some (str_opt (st_name s) @ '' (Detection)'')) (pp_pol_name pol)
                    = Some d)
             \<and> (p \<noteq> [] \<and> str_opt (st_name s) \<noteq> ''Extended User Mode Data'' \<longrightarrow>
                  cell motors' (Some (str_opt (st_name s) @ '' (Prevention)'')) (pp_pol_name pol)
                    = Some p))
          \<and> (\<exists>df. map_of result (pp_so pol) = Some df
               \<and> (d \<noteq> [] \<longrightarrow>
                    Some (str_opt (st_name s) @ '' (Detection)'') \<in> set (row_names df))
               \<and> (p \<noteq> [] \<and> str_opt (st_name s) \<noteq> ''Extended User Mode Data'' \<longrightarrow>
                    Some (str_opt (st_name s) @ '' (Prevention)'') \<in> set (row_names df))))
       \<and> (\<forall>(so, df) \<in> set result.
            Some ''Extended User Mode Data (Prevention)'' \<in> set (row_names df) \<longrightarrow>
              (\<exists>pol \<in> set policies. \<exists>s \<in> set (pp_settings_of pol).
                 st_name s = Some ''Extended User Mode Data (Prevention)''))
       \<and> (\<forall>x y. CHR '':'' \<notin> set (py_str x) \<and> CHR ''/'' \<notin> set (py_str x)
                \<and> CHR '':'' \<notin> set (py_str y) \<and> CHR ''/'' \<notin> set (py_str y) \<longrightarrow>
              sublist ''detection:''
                (collapse_flags (stringify (Some (Struct [(''detection'', x), (''prevention'', y)]))))
            \<and> sublist ''prevention:''
                (collapse_flags (stringify (Some (Struct [(''detection'', x), (''prevention'', y)]))))
            \<and> first_field ''detection:''
                (split CHR ''/''
                   (collapse_flags
                      (stringify (Some (Struct [(''detection'', x), (''prevention'', y)])))))
                = Inr (py_str x)
            \<and> first_field ''prevention:''
                (split CHR ''/''
                   (collapse_flags
                      (stringify (Some (Struct [(''detection'', x), (''prevention'', y)])))))
                = Inr (py_str y))"
proof -
  from tr obtain per_os where ap: "add_policies host_counts policies [] = Inr per_os"
    and fr: "pp_frames per_os = Inr result"
    by (auto simp: transform_policies_def split: sum.splits)
  have dist: "distinct (map fst per_os)" using add_policies_distinct[OF ap] by simp
  have A: "(\<forall>motors motors'. add_setting (pp_pol_name pol) s motors = Inr motors' \<longrightarrow>
               (d \<noteq> [] \<longrightarrow>
                  cell motors' (Some (str_opt (st_name s) @ '' (Detection)'')) (pp_pol_name pol)
                    = Some d)
             \<and> (p \<noteq> [] \<and> str_opt (st_name s) \<noteq> ''Extended User Mode Data'' \<longrightarrow>
                  cell motors' (Some (str_opt (st_name s) @ '' (Prevention)'')) (pp_pol_name pol)
                    = Some p))
          \<and> (\<exists>df. map_of result (pp_so pol) = Some df
               \<and> (d \<noteq> [] \<longrightarrow>
                    Some (str_opt (st_name s) @ '' (Detection)'') \<in> set (row_names df))
               \<and> (p \<noteq> [] \<and> str_opt (st_name s) \<noteq> ''Extended User Mode Data'' \<longrightarrow>
                    Some (str_opt (st_name s) @ '' (Prevention)'') \<in> set (row_names df)))"
    if pol: "pol \<in> set policies" and s: "s \<in> set (pp_settings_of pol)"
      and so: "pp_so pol \<notin> {''Mobile'', ''Meta''}"
      and det: "sublist ''detection:'' (collapse_flags (stringify (st_value s)))"
      and prv: "sublist ''prevention:'' (collapse_flags (stringify (st_value s)))"
      and d: "first_field ''detection:''
                (split CHR ''/'' (collapse_flags (stringify (st_value s)))) = Inr d"
      and p: "first_field ''prevention:''
                (split CHR ''/'' (collapse_flags (stringify (st_value s)))) = Inr p"
  proof -
    have w: "(d \<noteq> [] \<longrightarrow>
                cell motors' (Some (str_opt (st_name s) @ '' (Detection)'')) (pp_pol_name pol)
                  = Some d)
             \<and> (p \<noteq> [] \<and> str_opt (st_name s) \<noteq> ''Extended User Mode Data'' \<longrightarrow>
                cell motors' (Some (str_opt (st_name s) @ '' (Prevention)'')) (pp_pol_name pol)
                  = Some p)"
      if "add_setting (pp_pol_name pol) s motors = Inr motors'" for motors motors'
      using add_setting_writes[OF that refl det prv d p] by simp
    from add_policies_step[OF ap pol so s] obtain before after where
      st: "add_setting (pp_pol_name pol) s before = Inr after"
      and pe: "\<forall>m c. cell after m c \<noteq> None \<longrightarrow> pcell per_os (pp_so pol) m c \<noteq> None"
      by blast
    have "pp_so pol \<in> keys_of per_os" using add_policies_keys[OF ap] pol so by auto
    then obtain motors where mo: "map_of per_os (pp_so pol) = Some motors"
      by (metis map_of_None_keys not_None_eq)
    from pp_frames_map_of[OF fr mo] obtain df where
      df: "map_of result (pp_so pol) = Some df"
      and pf: "pp_frame (pp_so pol) motors = Inr df" by blast
    have rn: "m \<in> set (row_names df)" if "cell after m c \<noteq> None" for m c
    proof -
      from pe that have "pcell per_os (pp_so pol) m c \<noteq> None" by blast
      with mo have "cell motors m c \<noteq> None" by (simp add: pcell_def)
      then show ?thesis using frame_index_cell pp_frame_row_names[OF pf] by simp
    qed
    from w[OF st] have
      "(d \<noteq> [] \<longrightarrow> Some (str_opt (st_name s) @ '' (Detection)'') \<in> set (row_names df))
       \<and> (p \<noteq> [] \<and> str_opt (st_name s) \<noteq> ''Extended User Mode Data''
            \<longrightarrow> Some (str_opt (st_name s) @ '' (Prevention)'') \<in> set (row_names df))"
      using rn by (metis option.distinct(1))
    with df w show ?thesis by blast
  qed
  have B: "\<exists>pol \<in> set policies. \<exists>s \<in> set (pp_settings_of pol).
                 st_name s = Some ''Extended User Mode Data (Prevention)''"
    if mem: "(so, df) \<in> set result"
      and ex: "Some ''Extended User Mode Data (Prevention)'' \<in> set (row_names df)" for so df
  proof -
    from pp_frames_mem[OF fr mem] obtain motors where
      mo: "(so, motors) \<in> set per_os" and pf: "pp_frame so motors = Inr df" by blast
    from mo dist have "map_of per_os so = Some motors" by simp
    then have pl: "plabels per_os so = keys_of motors" by (simp add: plabels_def)
    from ex pp_frame_row_names[OF pf] frame_index_keys[of motors] pl
    have "Some ''Extended User Mode Data (Prevention)'' \<in> plabels per_os so" by auto
    with add_policies_labels[OF ap, of so] have
      "Some ''Extended User Mode Data (Prevention)'' \<in> (\<Union>pol \<in> set policies. policy_labels pol)"
      by (auto simp: plabels_def)
    then obtain pol s where "pol \<in> set policies" "s \<in> set (pp_settings_of pol)"
      "Some ''Extended User Mode Data (Prevention)'' \<in> setting_labels s"
      by (auto simp: policy_labels_def split: if_splits)
    with excluded_in_setting_labels show ?thesis by blast
  qed
  have C: "sublist ''detection:''
                (collapse_flags (stringify (Some (Struct [(''detection'', x), (''prevention'', y)]))))
            \<and> sublist ''prevention:''
                (collapse_flags (stringify (Some (Struct [(''detection'', x), (''prevention'', y)]))))
            \<and> first_field ''detection:''
                (split CHR ''/''
                   (collapse_flags
                      (stringify (Some (Struct [(''detection'', x), (''prevention'', y)])))))
                = Inr (py_str x)
            \<and> first_field ''prevention:''
                (split CHR ''/''
                   (collapse_flags
                      (stringify (Some (Struct [(''detection'', x), (''prevention'', y)])))))
                = Inr (py_str y)"
    if "CHR '':'' \<notin> set (py_str x)" "CHR ''/'' \<notin> set (py_str x)"
       "CHR '':'' \<notin> set (py_str y)" "CHR ''/'' \<notin> set (py_str y)" for x y
    using compound_text(2-5)[OF that refl] by blast
  show ?thesis using A B C by blast
qed

theorem detection_prevention_rows_witness:
  "\<exists>result df.
     transform_policies [example_policy ''Windows'' ''P1'' [cloud_anti_malware]] [] = Inr result
     \<and> map_of result ''Windows'' = Some df
     \<and> Some ''Cloud Anti-malware (Detection)'' \<in> set (row_names df)
     \<and> Some ''Cloud Anti-malware (Prevention)'' \<in> set (row_names df)"
proof -
  let ?pol = "example_policy ''Windows'' ''P1'' [cloud_anti_malware]"
  let ?df = "\<lparr> columns = [Some motor_header, Some ''Recomended'', Some ''P1''],
               rows = [[Some ''Cloud Anti-malware (Detection)'', Some ''AGGRESSIVE'',
                        Some ''aggressive''],
                       [Some ''Cloud Anti-malware (Prevention)'', Some ''AGGRESSIVE'',
                        Some ''aggressive'']] \<rparr>"
  have ev: "transform_policies [?pol] [] = Inr [(''Windows'', ?df)]" by code_simp
  have so: "pp_so ?pol = ''Windows''" by (simp add: pp_so_def example_policy_def)
  have n: "str_opt (st_name cloud_anti_malware) = ''Cloud Anti-malware''"
    by (simp add: cloud_anti_malware_def)
  have 1: "?pol \<in> set [?pol]" by simp
  have 2: "cloud_anti_malware \<in> set (pp_settings_of ?pol)"
    by (simp add: pp_settings_of_def example_policy_def)
  have 3: "pp_so ?pol \<notin> {''Mobile'', ''Meta''}" by (simp add: so)
  have 4: "sublist ''detection:'' (collapse_flags (stringify (st_value cloud_anti_malware)))"
    by code_simp
  have 5: "sublist ''prevention:'' (collapse_flags (stringify (st_value cloud_anti_malware)))"
    by code_simp
  have 6: "first_field ''detection:''
             (split CHR ''/'' (collapse_flags (stringify (st_value cloud_anti_malware))))
           = Inr ''aggressive''"
    by code_simp
  have 7: "first_field ''prevention:''
             (split CHR ''/'' (collapse_flags (stringify (st_value cloud_anti_malware))))
           = Inr ''aggressive''"
    by code_simp
  note T = detection_prevention_rows[OF ev, of ?pol cloud_anti_malware
             "''aggressive''" "''aggressive''", THEN conjunct1, THEN mp]
  from T 1 2 3 4 5 6 7
  have "\<exists>df. map_of [(''Windows'', ?df)] (pp_so ?pol) = Some df
          \<and> (''aggressive'' \<noteq> [] \<longrightarrow>
                Some (str_opt (st_name cloud_anti_malware) @ '' (Detection)'')
                  \<in> set (row_names df))
          \<and> (''aggressive'' \<noteq> [] \<and>
              str_opt (st_name cloud_anti_malware) \<noteq> ''Extended User Mode Data'' \<longrightarrow>
                Some (str_opt (st_name cloud_anti_malware) @ '' (Prevention)'')
                  \<in> set (row_names df))"
    by blast
  then have "\<exists>df. map_of [(''Windows'', ?df)] ''Windows'' = Some df
          \<and> Some ''Cloud Anti-malware (Detection)'' \<in> set (row_names df)
          \<and> Some ''Cloud Anti-malware (Prevention)'' \<in> set (row_names df)"
    unfolding so n by simp
  with ev show ?thesis by blast
qed

text \<open>
  Claim C4 as stated fails in both halves. The setting \<open>Extended User Mode Data\<close> with
  both indicators yields the detection row alone; a setting whose detection value
  is the empty string yields no detection row; and a setting that is itself named
  \<open>Extended User Mode Data (Prevention)\<close> puts a row of that name into the sheet.
\<close>

theorem detection_prevention_rows_counterexample:
  "transform_policies [example_policy ''Windows'' ''P1'' [extended_user_mode_data]] []
     = Inr [(''Windows'',
             \<lparr> columns = [Some motor_header, Some ''Recomended'', Some ''P1''],
               rows = [[Some ''Extended User Mode Data (Detection)'', Some ''MODERATE'',
                        Some ''moderate'']] \<rparr>)]
   \<and> transform_policies
       [example_policy ''Windows'' ''P1''
          [\<lparr> st_name = Some ''Cloud Anti-malware'',
             st_value = Some (Struct [(''detection'', PStr []),
                                      (''prevention'', PStr ''aggressive'')]) \<rparr>]] []
     = Inr [(''Windows'',
             \<lparr> columns = [Some motor_header, Some ''Recomended'', Some ''P1''],
               rows = [[Some ''Cloud Anti-malware (Prevention)'', Some ''AGGRESSIVE'',
                        Some ''aggressive'']] \<rparr>)]
   \<and> transform_policies
       [example_policy ''Windows'' ''P1''
          [\<lparr> st_name = Some ''Extended User Mode Data (Prevention)'',
             st_value = Some (Plain (PBool True)) \<rparr>]] []
     = Inr [(''Windows'',
             \<lparr> columns = [Some motor_header, Some ''Recomended'', Some ''P1''],
               rows = [[Some ''Extended User Mode Data (Prevention)'', Some [],
                        Some ''ON'']] \<rparr>)]"
  by code_simp




section \<open>Row order of the response-policy transform\<close>

text \<open>Both the order of first insertion and its reverse are iteration orders of a set.\<close>

lemma is_set_order_remdups: "is_set_order remdups ks"
  by (simp add: is_set_order_def)

lemma is_set_order_rev_remdups: "is_set_order (\<lambda>ks. rev (remdups ks)) ks"
  by (simp add: is_set_order_def)

text \<open>
  Claim C6, at a policy with two settings. The rows of the response-policy sheet come
  out in the iteration order of a Python set of the setting names. Under two
  iteration orders of that set, as two runs with different hash salts have them, the
  same input gives the same rows in different orders.
\<close>

theorem response_rows_follow_set_order:
  "is_set_order remdups [''RealTimeFunctionality'', ''CustomScripts'']
   \<and> is_set_order (\<lambda>ks. rev (remdups ks)) [''RealTimeFunctionality'', ''CustomScripts'']
   \<and> rp_transform_policies remdups [example_response_policy]
     = [(''Windows'',
         \<lparr> columns = [[], ''Default''],
           rows = [[''RealTimeFunctionality'', ''Enabled''],
                   [''CustomScripts'', ''Disabled'']] \<rparr>)]
   \<and> rp_transform_policies (\<lambda>ks. rev (remdups ks)) [example_response_policy]
     = [(''Windows'',
         \<lparr> columns = [[], ''Default''],
           rows = [[''CustomScripts'', ''Disabled''],
                   [''RealTimeFunctionality'', ''Enabled'']] \<rparr>)]"
proof -
  have "rp_transform_policies remdups [example_response_policy]
     = [(''Windows'',
         \<lparr> columns = [[], ''Default''],
           rows = [[''RealTimeFunctionality'', ''Enabled''],
                   [''CustomScripts'', ''Disabled'']] \<rparr>)]"
    by code_simp
  moreover have "rp_transform_policies (\<lambda>ks. rev (remdups ks)) [example_response_policy]
     = [(''Windows'',
         \<lparr> columns = [[], ''Default''],
           rows = [[''CustomScripts'', ''Disabled''],
                   [''RealTimeFunctionality'', ''Enabled'']] \<rparr>)]"
    by code_simp
  ultimately show ?thesis
    using is_set_order_remdups is_set_order_rev_remdups by blast
qed

section \<open>Writing the workbook\<close>

lemma xlsx_name_suffix: "suffix ''.xlsx'' (lower (xlsx_name outfile))"
  by (auto simp: xlsx_name_def lower_def lower_char_def suffix_def)




end
